theory Spec2Isabelle
  imports
    Complex_Main
    "HOL-Library.Word"
    "HOL-Library.FSet"
    "HOL-Library.Char_ord"
    "HOL-Library.List_Lexorder"
begin

section \<open>The node VNID map of pkg/network/node/vnids.go\<close>

text \<open>
  The development embeds the node-local VNID map: the three indexes of
  \<^verbatim>\<open>nodeVNIDMap\<close>, its read operations, its two mutators, the watch-event handlers,
  the retrying lookup \<^verbatim>\<open>WaitAndGetVNID\<close> and the bootstrap \<^verbatim>\<open>Start\<close>.

  Conventions.
  \<^item> A \<^verbatim>\<open>uint32\<close> is a \<open>32 word\<close>; a Go \<^verbatim>\<open>map[K]V\<close> is a partial function;
    a \<^verbatim>\<open>sets.String\<close> is a finite set of strings, whose \<^verbatim>\<open>List()\<close> is the sorted
    list of its members (byte-wise lexicographic order, as Go compares strings).
  \<^item> Every method runs under the mutex of the map, so each one is an atomic function
    from the indexes to the indexes.
  \<^item> A Go \<^verbatim>\<open>error\<close> is modelled by its message.
  \<^item> The isolation policy is an interface declared outside this file. Its
    \<^verbatim>\<open>AllowDuplicateNetID()\<close> answer is a parameter of the functions that ask for it, and
    its three callbacks are recorded, in call order, together with the indexes as they
    are at the moment of the call.
  \<^item> Log output (\<^verbatim>\<open>klog\<close>) is not modelled.
\<close>

subsection \<open>Data\<close>

type_synonym vnid = "32 word"

type_synonym error = string

record NetNamespace =
  Name :: string
  NetName :: string
  NetID :: vnid
  Annotations :: "string \<rightharpoonup> string"

record nodeVNIDMap =
  ids :: "string \<rightharpoonup> vnid"
  mcEnabled :: "string \<rightharpoonup> bool"
  namespaces :: "vnid \<rightharpoonup> string fset"

definition newNodeVNIDMap :: nodeVNIDMap where
  "newNodeVNIDMap = \<lparr>ids = Map.empty, mcEnabled = Map.empty, namespaces = Map.empty\<rparr>"

text \<open>Reading a \<^verbatim>\<open>map[string]bool\<close> at a missing key gives \<^verbatim>\<open>false\<close>.\<close>

definition lookup_bool :: "(string \<rightharpoonup> bool) \<Rightarrow> string \<Rightarrow> bool" where
  "lookup_bool m k = (case m k of None \<Rightarrow> False | Some b \<Rightarrow> b)"

subsection \<open>The reverse index\<close>

definition addNamespaceToSet :: "nodeVNIDMap \<Rightarrow> string \<Rightarrow> vnid \<Rightarrow> nodeVNIDMap" where
  "addNamespaceToSet vmap name v =
     (case namespaces vmap v of
        None \<Rightarrow> vmap\<lparr>namespaces := (namespaces vmap)(v \<mapsto> finsert name {||})\<rparr>
      | Some st \<Rightarrow> vmap\<lparr>namespaces := (namespaces vmap)(v \<mapsto> finsert name st)\<rparr>)"

definition removeNamespaceFromSet :: "nodeVNIDMap \<Rightarrow> string \<Rightarrow> vnid \<Rightarrow> nodeVNIDMap" where
  "removeNamespaceFromSet vmap name v =
     (case namespaces vmap v of
        None \<Rightarrow> vmap
      | Some st \<Rightarrow>
          (let st' = st |-| {|name|}
           in if fcard st' = 0
              then vmap\<lparr>namespaces := (namespaces vmap)(v := None)\<rparr>
              else vmap\<lparr>namespaces := (namespaces vmap)(v \<mapsto> st')\<rparr>))"

subsection \<open>Read operations\<close>

definition GetNamespaces :: "nodeVNIDMap \<Rightarrow> vnid \<Rightarrow> string list" where
  "GetNamespaces vmap v =
     (case namespaces vmap v of
        Some st \<Rightarrow> sorted_list_of_fset st
      | None \<Rightarrow> [])"

text \<open>The loop of \<^verbatim>\<open>GetMulticastEnabled\<close> over \<^verbatim>\<open>set.List()\<close>, with its early return.\<close>

fun mcEnabled_loop :: "(string \<rightharpoonup> bool) \<Rightarrow> string list \<Rightarrow> bool" where
  "mcEnabled_loop m [] = True"
| "mcEnabled_loop m (ns # rest) =
     (if \<not> lookup_bool m ns then False else mcEnabled_loop m rest)"

definition GetMulticastEnabled :: "nodeVNIDMap \<Rightarrow> vnid \<Rightarrow> bool" where
  "GetMulticastEnabled vmap v =
     (case namespaces vmap v of
        None \<Rightarrow> False
      | Some st \<Rightarrow>
          if fcard st = 0 then False
          else mcEnabled_loop (mcEnabled vmap) (sorted_list_of_fset st))"

definition getVNID :: "nodeVNIDMap \<Rightarrow> string \<Rightarrow> error + vnid" where
  "getVNID vmap name =
     (case ids vmap name of
        Some v \<Rightarrow> Inr v
      | None \<Rightarrow> Inl (''failed to find netid for namespace: '' @ name @ '' in vnid map''))"

text \<open>The loop of \<^verbatim>\<open>findDuplicateNetID\<close>: the first listed name that differs.\<close>

fun first_other :: "string \<Rightarrow> string list \<Rightarrow> string \<times> bool" where
  "first_other namespace [] = ('''', False)"
| "first_other namespace (name # names) =
     (if name \<noteq> namespace then (name, True) else first_other namespace names)"

definition findDuplicateNetID :: "bool \<Rightarrow> nodeVNIDMap \<Rightarrow> string \<Rightarrow> vnid \<Rightarrow> string \<times> bool" where
  "findDuplicateNetID allowDuplicateNetID vmap namespace netID =
     (if allowDuplicateNetID then ('''', False)
      else first_other namespace (GetNamespaces vmap netID))"

subsection \<open>Mutators\<close>

definition setVNID :: "nodeVNIDMap \<Rightarrow> string \<Rightarrow> vnid \<Rightarrow> bool \<Rightarrow> nodeVNIDMap" where
  "setVNID vmap name v mc =
     (let vmap1 = (case ids vmap name of
                     Some oldId \<Rightarrow> removeNamespaceFromSet vmap name oldId
                   | None \<Rightarrow> vmap);
          vmap2 = vmap1\<lparr>ids := (ids vmap1)(name \<mapsto> v)\<rparr>;
          vmap3 = vmap2\<lparr>mcEnabled := (mcEnabled vmap2)(name \<mapsto> mc)\<rparr>
      in addNamespaceToSet vmap3 name v)"

definition unsetVNID :: "nodeVNIDMap \<Rightarrow> string \<Rightarrow> (error + vnid) \<times> nodeVNIDMap" where
  "unsetVNID vmap name =
     (case ids vmap name of
        None \<Rightarrow> (Inl (''failed to find netid for namespace: '' @ name @ '' in vnid map''), vmap)
      | Some v \<Rightarrow>
          (let vmap1 = removeNamespaceFromSet vmap name v;
               vmap2 = vmap1\<lparr>ids := (ids vmap1)(name := None)\<rparr>;
               vmap3 = vmap2\<lparr>mcEnabled := (mcEnabled vmap2)(name := None)\<rparr>
           in (Inr v, vmap3)))"

text \<open>
  Modelled from the spec: the annotation key \<^verbatim>\<open>osdnv1.MulticastEnabledAnnotation\<close> is a
  constant of the vendored API package; the specification calls it a well-known
  annotation key, whose value must be exactly \<^verbatim>\<open>"true"\<close>. No property below depends on
  the key's text.
\<close>

definition MulticastEnabledAnnotation :: string where
  "MulticastEnabledAnnotation = ''netnamespace.network.openshift.io/multicast-enabled''"

definition netnsIsMulticastEnabled :: "NetNamespace \<Rightarrow> bool" where
  "netnsIsMulticastEnabled netns =
     (case Annotations netns MulticastEnabledAnnotation of
        Some enabled \<Rightarrow> enabled = ''true''
      | None \<Rightarrow> False)"

subsection \<open>The isolation policy and the watch-event handlers\<close>

text \<open>
  A call of the policy, and what the policy can see of the map when it is called: each
  handler returns the new indexes and the calls it made, every call paired with the
  indexes at the moment of the call.
\<close>

datatype policy_call =
    AddNetNamespace NetNamespace
  | UpdateNetNamespace NetNamespace vnid
  | DeleteNetNamespace NetNamespace

type_synonym policy_obs = "policy_call \<times> nodeVNIDMap"

datatype EventType = Added | Modified | Deleted | Bookmark | Error

definition handleAddOrUpdateNetNamespace ::
    "bool \<Rightarrow> nodeVNIDMap \<Rightarrow> NetNamespace \<Rightarrow> EventType \<Rightarrow> nodeVNIDMap \<times> policy_obs list" where
  "handleAddOrUpdateNetNamespace allowDuplicateNetID vmap netns eventType =
     (case findDuplicateNetID allowDuplicateNetID vmap (NetName netns) (NetID netns) of
        (name, True) \<Rightarrow> (vmap, [])
      | (name, False) \<Rightarrow>
          (let (oldNetID, err) = (case getVNID vmap (NetName netns) of
                                    Inr v \<Rightarrow> (v, None)
                                  | Inl e \<Rightarrow> (0, Some e));
               oldMCEnabled = lookup_bool (mcEnabled vmap) (NetName netns);
               mc = netnsIsMulticastEnabled netns
           in if err = None \<and> oldNetID = NetID netns \<and> oldMCEnabled = mc
              then (vmap, [])
              else (let vmap' = setVNID vmap (NetName netns) (NetID netns) mc
                    in if eventType = Added
                       then (vmap', [(AddNetNamespace netns, vmap')])
                       else (vmap', [(UpdateNetNamespace netns oldNetID, vmap')]))))"

definition handleDeleteNetNamespace ::
    "nodeVNIDMap \<Rightarrow> NetNamespace \<Rightarrow> nodeVNIDMap \<times> policy_obs list" where
  "handleDeleteNetNamespace vmap netns =
     (case unsetVNID vmap (NetName netns) of
        (Inl err, vmap') \<Rightarrow> (vmap', [])
      | (Inr v, vmap') \<Rightarrow> (vmap', [(DeleteNetNamespace netns, vmap')]))"

subsection \<open>The node around the map\<close>

text \<open>
  What the remaining functions touch besides the indexes: the calls made to the policy so
  far, whether the handlers are registered with the informer, the metric
  \<^verbatim>\<open>VnidNotFoundErrors\<close>, and the sleeps performed so far (in nanoseconds, the unit of
  \<^verbatim>\<open>time.Duration\<close>).
\<close>

record world =
  vnidMap :: nodeVNIDMap
  calls :: "policy_obs list"
  watching :: bool
  VnidNotFoundErrors :: nat
  slept :: "int list"

text \<open>
  The API client is vendored; what it answers is a parameter: the result of
  \<^verbatim>\<open>NetNamespaces().Get\<close> for each name and the result of \<^verbatim>\<open>NetNamespaces().List\<close>.
\<close>

record osdnClient =
  NetNamespaces_Get :: "string \<Rightarrow> error + NetNamespace"
  NetNamespaces_List :: "error + NetNamespace list"

definition run_handler :: "(nodeVNIDMap \<Rightarrow> nodeVNIDMap \<times> policy_obs list) \<Rightarrow> world \<Rightarrow> world" where
  "run_handler h w = (case h (vnidMap w) of (vm, cs) \<Rightarrow> w\<lparr>vnidMap := vm, calls := calls w @ cs\<rparr>)"

text \<open>
  Modelled from the spec: \<^verbatim>\<open>common.InformerFuncs\<close> (package \<^verbatim>\<open>pkg/network/common\<close>) and the
  informer are not part of the sources at hand. The specification describes an event
  subscription that delivers Added, Updated and Deleted notifications, each carrying a
  binding object, to the two handlers, one at a time.
\<close>

datatype informer_event = OnAdd NetNamespace | OnUpdate NetNamespace | OnDelete NetNamespace

fun deliver :: "bool \<Rightarrow> world \<Rightarrow> informer_event \<Rightarrow> world" where
  "deliver allowDuplicateNetID w (OnAdd netns) =
     run_handler (\<lambda>vm. handleAddOrUpdateNetNamespace allowDuplicateNetID vm netns Added) w"
| "deliver allowDuplicateNetID w (OnUpdate netns) =
     run_handler (\<lambda>vm. handleAddOrUpdateNetNamespace allowDuplicateNetID vm netns Modified) w"
| "deliver allowDuplicateNetID w (OnDelete netns) =
     run_handler (\<lambda>vm. handleDeleteNetNamespace vm netns) w"

text \<open>
  The other goroutines. While \<^verbatim>\<open>WaitAndGetVNID\<close> sleeps, the informer may deliver events
  to the registered handlers; \<open>env k\<close> lists the events delivered during the sleep number
  \<open>k\<close> (counted from 0) of the node. Interleaving is modelled at the sleeps only.
\<close>

type_synonym env = "nat \<Rightarrow> informer_event list"

definition sleep :: "bool \<Rightarrow> env \<Rightarrow> int \<Rightarrow> world \<Rightarrow> world" where
  "sleep allowDuplicateNetID env d w =
     (let w' = w\<lparr>slept := slept w @ [d]\<rparr>
      in if watching w'
         then foldl (deliver allowDuplicateNetID) w' (env (length (slept w)))
         else w')"

subsection \<open>Retrying lookup\<close>

text \<open>
  Modelled from the spec: the type \<^verbatim>\<open>utilwait.Backoff\<close>, the unit \<^verbatim>\<open>time.Millisecond\<close> and the
  error \<^verbatim>\<open>ErrWaitTimeout\<close> are declared in vendored packages, not in the sources at hand.
  The specification names the three parameters of a retry schedule (initial delay,
  multiplier, number of attempts); a \<^verbatim>\<open>time.Duration\<close> counts nanoseconds. The text of the
  timeout error is never looked at: \<^verbatim>\<open>WaitAndGetVNID\<close> only tests it against \<^verbatim>\<open>nil\<close>.
\<close>

definition Millisecond :: int where
  "Millisecond = 1000000"

record Backoff =
  Duration :: int
  Factor :: real
  Steps :: int

definition ErrWaitTimeout :: error where
  "ErrWaitTimeout = ''timed out waiting for the condition''"

text \<open>
  Modelled from the spec: \<^verbatim>\<open>utilwait.ExponentialBackoff\<close> and the step of its schedule are
  functions of the vendored \<^verbatim>\<open>k8s.io/apimachinery\<close> package, not part of the sources at
  hand. The specification describes a generic bounded exponential-retry helper: it
  attempts the condition repeatedly, at most \<^verbatim>\<open>Steps\<close> times, returns immediately on the
  first success, sleeps between two attempts for a delay that starts at \<^verbatim>\<open>Duration\<close> and
  is multiplied by \<^verbatim>\<open>Factor\<close> after each sleep, and reports exhaustion as an error. The
  condition works on a state \<open>'w\<close> and answers \<^verbatim>\<open>(done, err)\<close>; \<open>sleeping\<close> is what a sleep
  does to that state. The delays met below (400ms times powers of 1.5, five of them) are
  whole numbers of nanoseconds that a 64-bit float represents exactly, so the product
  over the reals is the one the float computes.
\<close>

definition next_backoff :: "Backoff \<Rightarrow> Backoff" where
  "next_backoff backoff =
     backoff\<lparr>Steps := Steps backoff - 1,
             Duration := \<lfloor>real_of_int (Duration backoff) * Factor backoff\<rfloor>\<rparr>"

function ExponentialBackoff ::
    "Backoff \<Rightarrow> ('w \<Rightarrow> (bool \<times> error option) \<times> 'w) \<Rightarrow> (int \<Rightarrow> 'w \<Rightarrow> 'w) \<Rightarrow> 'w \<Rightarrow> error option \<times> 'w" where
  "ExponentialBackoff backoff condition sleeping w =
     (if Steps backoff > 0
      then (case condition w of
              ((ok, err), w') \<Rightarrow>
                if err \<noteq> None \<or> ok then (err, w')
                else if Steps backoff = 1 then (Some ErrWaitTimeout, w')
                else ExponentialBackoff (next_backoff backoff) condition sleeping
                       (sleeping (Duration backoff) w'))
      else (Some ErrWaitTimeout, w))"
  by pat_completeness auto
termination
  by (relation "measure (\<lambda>(backoff, condition, sleeping, w). nat (Steps backoff))")
     (auto simp: next_backoff_def)

declare ExponentialBackoff.simps [simp del]

text \<open>
  The closure passed to the retrier assigns the captured variable \<^verbatim>\<open>id\<close> (here \<open>vid\<close>; 0 when the
  lookup fails) and never returns an error of its own.
\<close>

definition lookup_condition :: "string \<Rightarrow> vnid \<times> world \<Rightarrow> (bool \<times> error option) \<times> (vnid \<times> world)" where
  "lookup_condition name = (\<lambda>(vid, w).
     (case getVNID (vnidMap w) name of
        Inr v \<Rightarrow> ((True, None), (v, w))
      | Inl err \<Rightarrow> ((False, None), (0, w))))"

definition WaitAndGetVNID ::
    "bool \<Rightarrow> osdnClient \<Rightarrow> env \<Rightarrow> world \<Rightarrow> string \<Rightarrow> (error + vnid) \<times> world" where
  "WaitAndGetVNID allowDuplicateNetID client env w name =
     (let backoff = \<lparr>Duration = 400 * Millisecond, Factor = 1.5, Steps = 6\<rparr>
      in case ExponentialBackoff backoff (lookup_condition name)
                (\<lambda>d (vid, w). (vid, sleep allowDuplicateNetID env d w)) (0, w) of
           (None, (vid, w1)) \<Rightarrow> (Inr vid, w1)
         | (Some timeout, (vid, w1)) \<Rightarrow>
             (let w2 = w1\<lparr>VnidNotFoundErrors := VnidNotFoundErrors w1 + 1\<rparr>
              in case NetNamespaces_Get client name of
                   Inl err \<Rightarrow>
                     (Inl (''failed to find netid for namespace: '' @ name @ '', '' @ err), w2)
                 | Inr netns \<Rightarrow>
                     (Inr (NetID netns),
                      run_handler (\<lambda>vm. handleAddOrUpdateNetNamespace allowDuplicateNetID vm netns Added) w2)))"

subsection \<open>Bootstrap\<close>

definition populateVNIDs :: "osdnClient \<Rightarrow> world \<Rightarrow> error option \<times> world" where
  "populateVNIDs client w =
     (case NetNamespaces_List client of
        Inl err \<Rightarrow> (Some err, w)
      | Inr items \<Rightarrow>
          (None, w\<lparr>vnidMap := foldl (\<lambda>vm net. setVNID vm (Name net) (NetID net) (netnsIsMulticastEnabled net))
                                  (vnidMap w) items\<rparr>))"

definition watchNetNamespaces :: "world \<Rightarrow> world" where
  "watchNetNamespaces w = w\<lparr>watching := True\<rparr>"

definition Start :: "osdnClient \<Rightarrow> world \<Rightarrow> error option \<times> world" where
  "Start client w =
     (case populateVNIDs client w of
        (Some err, w') \<Rightarrow> (Some err, w')
      | (None, w') \<Rightarrow> (None, watchNetNamespaces w'))"

subsection \<open>States reachable through the two mutators\<close>

inductive reachable :: "nodeVNIDMap \<Rightarrow> bool" where
  r_new: "reachable newNodeVNIDMap"
| r_set: "reachable vmap \<Longrightarrow> reachable (setVNID vmap name v mc)"
| r_unset: "reachable vmap \<Longrightarrow> reachable (snd (unsetVNID vmap name))"

definition index_symmetry :: "nodeVNIDMap \<Rightarrow> bool" where
  "index_symmetry vmap \<longleftrightarrow>
     (\<forall>n v. ids vmap n = Some v \<longrightarrow> (\<exists>st. namespaces vmap v = Some st \<and> n |\<in>| st)) \<and>
     (\<forall>v st n. namespaces vmap v = Some st \<and> n |\<in>| st \<longrightarrow> ids vmap n = Some v) \<and>
     (\<forall>v. namespaces vmap v \<noteq> Some {||})"

text \<open>
  The members of a bucket of the reverse index, an absent bucket having none; and the
  pruning discipline of \<^verbatim>\<open>removeNamespaceFromSet\<close>: no bucket is left empty.
\<close>

definition members :: "nodeVNIDMap \<Rightarrow> vnid \<Rightarrow> string fset" where
  "members vmap v = (case namespaces vmap v of None \<Rightarrow> {||} | Some st \<Rightarrow> st)"

definition no_empty_bucket :: "nodeVNIDMap \<Rightarrow> bool" where
  "no_empty_bucket vmap \<longleftrightarrow> (\<forall>v. namespaces vmap v \<noteq> Some {||})"

text \<open>
  The run of the retrying lookup, spelled out: the delays of the first \<open>k\<close> sleeps of a
  backoff, and the node as it is when the lookup number \<open>k\<close> (counted from 0) is made,
  that is after \<open>k\<close> sleeps, each with the events the informer delivered meanwhile.
\<close>

fun delays :: "Backoff \<Rightarrow> nat \<Rightarrow> int list" where
  "delays backoff 0 = []"
| "delays backoff (Suc k) = Duration backoff # delays (next_backoff backoff) k"

fun attempt_world :: "bool \<Rightarrow> env \<Rightarrow> Backoff \<Rightarrow> world \<Rightarrow> nat \<Rightarrow> world" where
  "attempt_world allowDuplicateNetID env backoff w 0 = w"
| "attempt_world allowDuplicateNetID env backoff w (Suc k) =
     attempt_world allowDuplicateNetID env (next_backoff backoff)
       (sleep allowDuplicateNetID env (Duration backoff) w) k"

definition vnidBackoff :: Backoff where
  "vnidBackoff = \<lparr>Duration = 400 * Millisecond, Factor = 1.5, Steps = 6\<rparr>"

section \<open>The index invariant\<close>

lemma index_symmetry_new: "index_symmetry newNodeVNIDMap"
  by (simp add: index_symmetry_def newNodeVNIDMap_def)

lemma index_symmetry_members:
  "index_symmetry vmap \<longleftrightarrow>
     no_empty_bucket vmap \<and> (\<forall>n v. n |\<in>| members vmap v \<longleftrightarrow> ids vmap n = Some v)"
  unfolding index_symmetry_def no_empty_bucket_def members_def
  by (fastforce split: option.splits)

lemma members_remove:
  "members (removeNamespaceFromSet vmap name v) v' =
     (if v' = v then members vmap v |-| {|name|} else members vmap v')"
  by (auto simp: members_def removeNamespaceFromSet_def Let_def fcard_0_eq split: option.splits)

lemma no_empty_remove:
  "no_empty_bucket vmap \<Longrightarrow> no_empty_bucket (removeNamespaceFromSet vmap name v)"
  by (auto simp: no_empty_bucket_def removeNamespaceFromSet_def Let_def fcard_0_eq split: option.splits)

lemma fields_remove [simp]:
  "ids (removeNamespaceFromSet vmap name v) = ids vmap"
  "mcEnabled (removeNamespaceFromSet vmap name v) = mcEnabled vmap"
  by (auto simp: removeNamespaceFromSet_def Let_def split: option.splits)

lemma members_add:
  "members (addNamespaceToSet vmap name v) v' =
     (if v' = v then finsert name (members vmap v) else members vmap v')"
  by (auto simp: members_def addNamespaceToSet_def split: option.splits)

lemma no_empty_add:
  "no_empty_bucket vmap \<Longrightarrow> no_empty_bucket (addNamespaceToSet vmap name v)"
  by (auto simp: no_empty_bucket_def addNamespaceToSet_def split: option.splits)

lemma fields_add [simp]:
  "ids (addNamespaceToSet vmap name v) = ids vmap"
  "mcEnabled (addNamespaceToSet vmap name v) = mcEnabled vmap"
  by (auto simp: addNamespaceToSet_def split: option.splits)

lemma ids_setVNID [simp]: "ids (setVNID vmap name v mc) = (ids vmap)(name \<mapsto> v)"
  by (simp add: setVNID_def Let_def split: option.splits)

lemma mcEnabled_setVNID [simp]: "mcEnabled (setVNID vmap name v mc) = (mcEnabled vmap)(name \<mapsto> mc)"
  by (simp add: setVNID_def Let_def split: option.splits)

lemma members_upd [simp]:
  "members (vmap\<lparr>ids := i\<rparr>) = members vmap"
  "members (vmap\<lparr>mcEnabled := m\<rparr>) = members vmap"
  by (auto simp: members_def fun_eq_iff)

lemma no_empty_upd [simp]:
  "no_empty_bucket (vmap\<lparr>ids := i\<rparr>) = no_empty_bucket vmap"
  "no_empty_bucket (vmap\<lparr>mcEnabled := m\<rparr>) = no_empty_bucket vmap"
  by (auto simp: no_empty_bucket_def)

lemma members_setVNID:
  "members (setVNID vmap name v mc) v' =
     (let old = (case ids vmap name of
                   Some oldId \<Rightarrow> (if v' = oldId then members vmap v' |-| {|name|} else members vmap v')
                 | None \<Rightarrow> members vmap v')
      in if v' = v then finsert name old else old)"
  by (simp add: setVNID_def Let_def members_add members_remove split: option.splits)

lemma no_empty_setVNID:
  "no_empty_bucket vmap \<Longrightarrow> no_empty_bucket (setVNID vmap name v mc)"
  by (simp add: setVNID_def Let_def no_empty_add no_empty_remove split: option.splits)

lemma index_symmetry_setVNID:
  "index_symmetry vmap \<Longrightarrow> index_symmetry (setVNID vmap name v mc)"
  unfolding index_symmetry_members
  by (auto simp: no_empty_setVNID members_setVNID Let_def split: option.splits)

lemma ids_unsetVNID [simp]: "ids (snd (unsetVNID vmap name)) = (ids vmap)(name := None)"
  by (auto simp add: unsetVNID_def Let_def fun_eq_iff split: option.splits)

lemma mcEnabled_unsetVNID:
  "mcEnabled (snd (unsetVNID vmap name)) =
     (if ids vmap name = None then mcEnabled vmap else (mcEnabled vmap)(name := None))"
  by (auto simp add: unsetVNID_def Let_def fun_eq_iff split: option.splits)

lemma members_unsetVNID:
  "members (snd (unsetVNID vmap name)) v' =
     (case ids vmap name of
        Some v \<Rightarrow> (if v' = v then members vmap v' |-| {|name|} else members vmap v')
      | None \<Rightarrow> members vmap v')"
  by (simp add: unsetVNID_def Let_def members_remove split: option.splits)

lemma no_empty_unsetVNID:
  "no_empty_bucket vmap \<Longrightarrow> no_empty_bucket (snd (unsetVNID vmap name))"
  by (simp add: unsetVNID_def Let_def no_empty_remove split: option.splits)

lemma index_symmetry_unsetVNID:
  "index_symmetry vmap \<Longrightarrow> index_symmetry (snd (unsetVNID vmap name))"
  unfolding index_symmetry_members
  by (auto simp: no_empty_unsetVNID members_unsetVNID split: option.splits)

lemma reachable_index_symmetry: "reachable vmap \<Longrightarrow> index_symmetry vmap"
  by (induction rule: reachable.induct)
     (simp_all add: index_symmetry_new index_symmetry_setVNID index_symmetry_unsetVNID)

text \<open>
  C1 (index symmetry). In every state reached from the empty map by any sequence of
  \<^verbatim>\<open>setVNID\<close> and \<^verbatim>\<open>unsetVNID\<close> calls: a namespace \<open>n\<close> with \<open>ids[n] = v\<close> is a member of
  \<open>namespaces[v]\<close>; every member \<open>n\<close> of \<open>namespaces[v]\<close> has \<open>ids[n] = v\<close>; and no vnid
  maps to an empty set.
\<close>

theorem index_symmetry_reachable:
  "reachable vmap \<Longrightarrow>
     (\<forall>n v. ids vmap n = Some v \<longrightarrow> (\<exists>st. namespaces vmap v = Some st \<and> n |\<in>| st)) \<and>
     (\<forall>v st n. namespaces vmap v = Some st \<and> n |\<in>| st \<longrightarrow> ids vmap n = Some v) \<and>
     (\<forall>v. namespaces vmap v \<noteq> Some {||})"
  using reachable_index_symmetry [of vmap] by (simp add: index_symmetry_def)

theorem index_symmetry_reachable_witness:
  "reachable (snd (unsetVNID (setVNID (setVNID newNodeVNIDMap ''a'' 5 True) ''b'' 5 False) ''a'')) \<and>
   ids (snd (unsetVNID (setVNID (setVNID newNodeVNIDMap ''a'' 5 True) ''b'' 5 False) ''a'')) ''b'' = Some 5 \<and>
   (\<exists>st. namespaces (snd (unsetVNID (setVNID (setVNID newNodeVNIDMap ''a'' 5 True) ''b'' 5 False) ''a'')) 5
     = Some st \<and> ''b'' |\<in>| st \<and> ''a'' |\<notin>| st)"
proof -
  let ?s = "snd (unsetVNID (setVNID (setVNID newNodeVNIDMap ''a'' 5 True) ''b'' 5 False) ''a'')"
  have r: "reachable ?s"
    by (intro reachable.intros)
  have i: "ids ?s ''b'' = Some 5" and j: "ids ?s ''a'' = None"
    by simp_all
  from index_symmetry_reachable [OF r] i
  obtain st where st: "namespaces ?s 5 = Some st" "''b'' |\<in>| st"
    by blast
  from index_symmetry_reachable [OF r] st(1) j
  have "''a'' |\<notin>| st"
    by (metis option.distinct(1))
  with r i st show ?thesis
    by blast
qed

section \<open>Multicast is a property of the group\<close>

lemma mcEnabled_loop_iff:
  "mcEnabled_loop m xs \<longleftrightarrow> (\<forall>n \<in> set xs. m n = Some True)"
  by (induction xs) (auto simp: lookup_bool_def split: option.splits)

lemma GetMulticastEnabled_members:
  "GetMulticastEnabled vmap v \<longleftrightarrow>
     members vmap v \<noteq> {||} \<and> (\<forall>n. n |\<in>| members vmap v \<longrightarrow> mcEnabled vmap n = Some True)"
  by (auto simp: GetMulticastEnabled_def members_def mcEnabled_loop_iff fcard_0_eq
           split: option.splits)

lemma reachable_unbound:
  assumes "reachable vmap" and "\<forall>n. ids vmap n \<noteq> Some v"
  shows "members vmap v = {||}"
proof -
  from assms(1) have "index_symmetry vmap"
    by (rule reachable_index_symmetry)
  then have "\<forall>n. n |\<in>| members vmap v \<longleftrightarrow> ids vmap n = Some v"
    by (simp add: index_symmetry_members)
  with assms(2) show ?thesis
    by auto
qed

text \<open>
  C2 (multicast group semantics). In every reachable state and for every vnid \<open>v\<close>,
  \<^verbatim>\<open>GetMulticastEnabled(v)\<close> is true exactly when \<open>namespaces[v]\<close> exists, is not empty, and
  every namespace in it has its \<open>mcEnabled\<close> entry true; in particular it is false when no
  namespace is bound to \<open>v\<close> in \<open>ids\<close>.
\<close>

theorem GetMulticastEnabled_group:
  "reachable vmap \<Longrightarrow>
     (GetMulticastEnabled vmap v \<longleftrightarrow>
        (\<exists>st. namespaces vmap v = Some st \<and> st \<noteq> {||} \<and>
              (\<forall>n. n |\<in>| st \<longrightarrow> mcEnabled vmap n = Some True))) \<and>
     ((\<forall>n. ids vmap n \<noteq> Some v) \<longrightarrow> \<not> GetMulticastEnabled vmap v)"
proof (intro conjI impI)
  show "GetMulticastEnabled vmap v \<longleftrightarrow>
        (\<exists>st. namespaces vmap v = Some st \<and> st \<noteq> {||} \<and>
              (\<forall>n. n |\<in>| st \<longrightarrow> mcEnabled vmap n = Some True))"
    by (cases "namespaces vmap v") (simp_all add: GetMulticastEnabled_members members_def)
next
  assume "reachable vmap" and "\<forall>n. ids vmap n \<noteq> Some v"
  then have "members vmap v = {||}"
    by (rule reachable_unbound)
  then show "\<not> GetMulticastEnabled vmap v"
    by (simp add: GetMulticastEnabled_members)
qed

theorem GetMulticastEnabled_group_witness:
  "reachable (setVNID newNodeVNIDMap ''a'' 5 True) \<and>
   GetMulticastEnabled (setVNID newNodeVNIDMap ''a'' 5 True) 5 \<and>
   \<not> GetMulticastEnabled (setVNID newNodeVNIDMap ''a'' 5 True) 7 \<and>
   \<not> GetMulticastEnabled (setVNID (setVNID newNodeVNIDMap ''a'' 5 True) ''b'' 5 False) 5"
proof -
  let ?s = "setVNID newNodeVNIDMap ''a'' 5 True"
  let ?t = "setVNID ?s ''b'' 5 False"
  have r: "reachable ?s" and r': "reachable ?t"
    by (intro reachable.intros)+
  have n: "namespaces ?s 5 = Some {|''a''|}"
    by (simp add: setVNID_def newNodeVNIDMap_def addNamespaceToSet_def)
  have a: "GetMulticastEnabled ?s 5"
    using GetMulticastEnabled_group [OF r, of 5] n by simp
  have "\<forall>n. ids ?s n \<noteq> Some 7"
    by (simp add: newNodeVNIDMap_def)
  with GetMulticastEnabled_group [OF r, of 7] have b: "\<not> GetMulticastEnabled ?s 7"
    by blast
  have n': "namespaces ?t 5 = Some {|''b'', ''a''|}"
    by (simp add: setVNID_def newNodeVNIDMap_def addNamespaceToSet_def removeNamespaceFromSet_def)
  have "mcEnabled ?t ''b'' \<noteq> Some True"
    by simp
  with GetMulticastEnabled_group [OF r', of 5] n' have c: "\<not> GetMulticastEnabled ?t 5"
    by auto
  from r a b c show ?thesis
    by blast
qed

section \<open>The Add/Update handler\<close>

lemma first_other_found:
  "snd (first_other namespace names) \<longleftrightarrow> (\<exists>name \<in> set names. name \<noteq> namespace)"
  by (induction names) auto

lemma set_GetNamespaces: "set (GetNamespaces vmap v) = fset (members vmap v)"
  by (simp add: GetNamespaces_def members_def split: option.splits)

lemma findDuplicateNetID_found:
  "snd (findDuplicateNetID allow vmap namespace netID) \<longleftrightarrow>
     \<not> allow \<and> (\<exists>name. name |\<in>| members vmap netID \<and> name \<noteq> namespace)"
  by (auto simp: findDuplicateNetID_def first_other_found set_GetNamespaces)

text \<open>The three ways through the handler.\<close>

lemma handle_duplicate:
  "snd (findDuplicateNetID allow vmap (NetName netns) (NetID netns)) \<Longrightarrow>
   handleAddOrUpdateNetNamespace allow vmap netns eventType = (vmap, [])"
  by (cases "findDuplicateNetID allow vmap (NetName netns) (NetID netns)")
     (simp add: handleAddOrUpdateNetNamespace_def)

lemma handle_noop:
  "\<not> snd (findDuplicateNetID allow vmap (NetName netns) (NetID netns)) \<Longrightarrow>
   ids vmap (NetName netns) = Some (NetID netns) \<Longrightarrow>
   lookup_bool (mcEnabled vmap) (NetName netns) = netnsIsMulticastEnabled netns \<Longrightarrow>
   handleAddOrUpdateNetNamespace allow vmap netns eventType = (vmap, [])"
  by (cases "findDuplicateNetID allow vmap (NetName netns) (NetID netns)")
     (simp add: handleAddOrUpdateNetNamespace_def getVNID_def)

lemma handle_apply:
  assumes "\<not> snd (findDuplicateNetID allow vmap (NetName netns) (NetID netns))"
    and "\<not> (ids vmap (NetName netns) = Some (NetID netns) \<and>
            lookup_bool (mcEnabled vmap) (NetName netns) = netnsIsMulticastEnabled netns)"
  shows "handleAddOrUpdateNetNamespace allow vmap netns eventType =
     (let vmap' = setVNID vmap (NetName netns) (NetID netns) (netnsIsMulticastEnabled netns)
      in (vmap',
          [(if eventType = Added then AddNetNamespace netns
            else UpdateNetNamespace netns (case ids vmap (NetName netns) of Some old \<Rightarrow> old | None \<Rightarrow> 0),
            vmap')]))"
  using assms
  by (cases "findDuplicateNetID allow vmap (NetName netns) (NetID netns)";
      cases "ids vmap (NetName netns)")
     (auto simp: handleAddOrUpdateNetNamespace_def getVNID_def Let_def)

lemma new_fields [simp]:
  "ids newNodeVNIDMap n = None"
  "mcEnabled newNodeVNIDMap n = None"
  "namespaces newNodeVNIDMap v = None"
  "members newNodeVNIDMap v = {||}"
  by (simp_all add: newNodeVNIDMap_def members_def)

text \<open>
  C3 (which callback). The claim reads: an event that passes the duplicate guard and is
  not a no-op leads to \<^verbatim>\<open>AddNetNamespace\<close> when the namespace had no binding and to
  \<^verbatim>\<open>UpdateNetNamespace\<close> with the previous vnid when it had one, whatever the event type.
  The handler chooses by the event type instead (\<^verbatim>\<open>if eventType == watch.Added\<close>). Below,
  namespace \<open>a\<close> is bound to 1 and an Added event rebinds it to 2: the policy receives
  \<^verbatim>\<open>AddNetNamespace\<close>, not \<^verbatim>\<open>UpdateNetNamespace(o, 1)\<close>. And a Modified event for the unbound
  namespace \<open>a\<close> leads to \<^verbatim>\<open>UpdateNetNamespace(o, 0)\<close>, not to \<^verbatim>\<open>AddNetNamespace\<close>.
\<close>

theorem callback_by_binding_counterexample:
  "ids (setVNID newNodeVNIDMap ''a'' 1 False) ''a'' = Some 1 \<and>
   \<not> snd (findDuplicateNetID False (setVNID newNodeVNIDMap ''a'' 1 False) ''a'' 2) \<and>
   map fst (snd (handleAddOrUpdateNetNamespace False (setVNID newNodeVNIDMap ''a'' 1 False)
      \<lparr>Name = ''a'', NetName = ''a'', NetID = 2, Annotations = Map.empty\<rparr> Added))
     = [AddNetNamespace \<lparr>Name = ''a'', NetName = ''a'', NetID = 2, Annotations = Map.empty\<rparr>] \<and>
   map fst (snd (handleAddOrUpdateNetNamespace False (setVNID newNodeVNIDMap ''a'' 1 False)
      \<lparr>Name = ''a'', NetName = ''a'', NetID = 2, Annotations = Map.empty\<rparr> Added))
     \<noteq> [UpdateNetNamespace \<lparr>Name = ''a'', NetName = ''a'', NetID = 2, Annotations = Map.empty\<rparr> 1] \<and>
   ids newNodeVNIDMap ''a'' = None \<and>
   \<not> snd (findDuplicateNetID False newNodeVNIDMap ''a'' 2) \<and>
   map fst (snd (handleAddOrUpdateNetNamespace False newNodeVNIDMap
      \<lparr>Name = ''a'', NetName = ''a'', NetID = 2, Annotations = Map.empty\<rparr> Modified))
     = [UpdateNetNamespace \<lparr>Name = ''a'', NetName = ''a'', NetID = 2, Annotations = Map.empty\<rparr> 0] \<and>
   map fst (snd (handleAddOrUpdateNetNamespace False newNodeVNIDMap
      \<lparr>Name = ''a'', NetName = ''a'', NetID = 2, Annotations = Map.empty\<rparr> Modified))
     \<noteq> [AddNetNamespace \<lparr>Name = ''a'', NetName = ''a'', NetID = 2, Annotations = Map.empty\<rparr>]"
proof -
  let ?s = "setVNID newNodeVNIDMap ''a'' 1 False"
  let ?o = "\<lparr>Name = ''a'', NetName = ''a'', NetID = 2, Annotations = Map.empty\<rparr>"
  have d0: "\<not> snd (findDuplicateNetID False newNodeVNIDMap ''a'' 2)"
    by (simp add: findDuplicateNetID_found)
  have d1: "\<not> snd (findDuplicateNetID False ?s ''a'' 2)"
    by (simp add: findDuplicateNetID_found members_setVNID)
  have i0: "ids newNodeVNIDMap ''a'' = None"
    by simp
  have i1: "ids ?s ''a'' = Some 1"
    by simp
  have h1: "map fst (snd (handleAddOrUpdateNetNamespace False ?s ?o Added)) = [AddNetNamespace ?o]"
    using d1 i1 by (subst handle_apply) (simp_all add: Let_def)
  have h0: "map fst (snd (handleAddOrUpdateNetNamespace False newNodeVNIDMap ?o Modified))
              = [UpdateNetNamespace ?o 0]"
    using d0 i0 by (subst handle_apply) (simp_all add: Let_def)
  from d0 d1 i0 i1 h0 h1 show ?thesis
    by simp
qed

text \<open>
  C3, amended. An event that passes the duplicate guard and is not a no-op makes the
  handler call \<^verbatim>\<open>setVNID\<close> and then exactly one callback, chosen by the delivered event
  type: \<^verbatim>\<open>AddNetNamespace(o)\<close> for Added, and otherwise \<^verbatim>\<open>UpdateNetNamespace(o, old)\<close>,
  where \<open>old\<close> is the vnid recorded for the namespace before the event, or 0 when it had
  none. Whether the namespace had a binding does not choose the callback.
\<close>

theorem callback_by_event_type:
  assumes "\<not> snd (findDuplicateNetID allow vmap (NetName netns) (NetID netns))"
    and "\<not> (ids vmap (NetName netns) = Some (NetID netns) \<and>
            lookup_bool (mcEnabled vmap) (NetName netns) = netnsIsMulticastEnabled netns)"
  shows "handleAddOrUpdateNetNamespace allow vmap netns eventType =
     (setVNID vmap (NetName netns) (NetID netns) (netnsIsMulticastEnabled netns),
      [(if eventType = Added then AddNetNamespace netns
        else UpdateNetNamespace netns (case ids vmap (NetName netns) of Some old \<Rightarrow> old | None \<Rightarrow> 0),
        setVNID vmap (NetName netns) (NetID netns) (netnsIsMulticastEnabled netns))])"
  using handle_apply [OF assms] by (simp add: Let_def)

theorem callback_by_event_type_witness:
  "\<not> snd (findDuplicateNetID False (setVNID newNodeVNIDMap ''a'' 1 False) ''a'' 2) \<and>
   ids (setVNID newNodeVNIDMap ''a'' 1 False) ''a'' \<noteq> Some 2 \<and>
   handleAddOrUpdateNetNamespace False (setVNID newNodeVNIDMap ''a'' 1 False)
      \<lparr>Name = ''a'', NetName = ''a'', NetID = 2, Annotations = Map.empty\<rparr> Modified =
     (setVNID (setVNID newNodeVNIDMap ''a'' 1 False) ''a'' 2 False,
      [(UpdateNetNamespace \<lparr>Name = ''a'', NetName = ''a'', NetID = 2, Annotations = Map.empty\<rparr> 1,
        setVNID (setVNID newNodeVNIDMap ''a'' 1 False) ''a'' 2 False)])"
proof -
  let ?s = "setVNID newNodeVNIDMap ''a'' 1 False"
  let ?o = "\<lparr>Name = ''a'', NetName = ''a'', NetID = 2, Annotations = Map.empty\<rparr>"
  have d: "\<not> snd (findDuplicateNetID False ?s (NetName ?o) (NetID ?o))"
    by (simp add: findDuplicateNetID_found members_setVNID)
  have n: "\<not> (ids ?s (NetName ?o) = Some (NetID ?o) \<and>
              lookup_bool (mcEnabled ?s) (NetName ?o) = netnsIsMulticastEnabled ?o)"
    by simp
  have m: "netnsIsMulticastEnabled ?o = False"
    by (simp add: netnsIsMulticastEnabled_def)
  from callback_by_event_type [OF d n, of Modified] d m show ?thesis
    by simp
qed

section \<open>Conflicts and replays\<close>

lemma reachable_members: "reachable vmap \<Longrightarrow> n |\<in>| members vmap v \<longleftrightarrow> ids vmap n = Some v"
  using reachable_index_symmetry [of vmap] by (simp add: index_symmetry_members)

lemma GetNamespaces_single:
  assumes "members vmap v = {|n|}"
  shows "GetNamespaces vmap v = [n]"
proof (cases "namespaces vmap v")
  case None
  then have "members vmap v = {||}"
    by (simp add: members_def)
  with assms show ?thesis
    by (metis finsert_not_fempty)
next
  case (Some st)
  with assms have "st = {|n|}"
    by (simp add: members_def)
  moreover have "sorted_list_of_fset {|n|} = [n]"
    by (simp add: sorted_list_of_fset.rep_eq)
  ultimately show ?thesis
    using Some by (simp add: GetNamespaces_def)
qed

text \<open>
  C4 (first writer wins). When the policy forbids duplicate vnids and a namespace other
  than the event's is bound to the event's vnid, the Add/Update handler returns the three
  indexes unchanged and calls nothing. For instance, from the empty map, after the event
  \<open>(nsA, 5)\<close> the event \<open>(nsB, 5)\<close> calls nothing and \<^verbatim>\<open>GetNamespaces(5)\<close> is exactly \<open>[nsA]\<close>.
\<close>

theorem first_writer_wins:
  "(reachable vmap \<and> \<not> allow \<and> ids vmap other = Some (NetID netns) \<and> other \<noteq> NetName netns \<longrightarrow>
      handleAddOrUpdateNetNamespace allow vmap netns eventType = (vmap, [])) \<and>
   (NetName a \<noteq> NetName b \<and> NetID a = 5 \<and> NetID b = 5 \<longrightarrow>
      snd (handleAddOrUpdateNetNamespace False
             (fst (handleAddOrUpdateNetNamespace False newNodeVNIDMap a eventType_a)) b eventType_b) = [] \<and>
      GetNamespaces
        (fst (handleAddOrUpdateNetNamespace False
               (fst (handleAddOrUpdateNetNamespace False newNodeVNIDMap a eventType_a)) b eventType_b)) 5
        = [NetName a])"
proof (intro conjI impI)
  assume h: "reachable vmap \<and> \<not> allow \<and> ids vmap other = Some (NetID netns) \<and> other \<noteq> NetName netns"
  then have "other |\<in>| members vmap (NetID netns)"
    by (simp add: reachable_members)
  with h have "snd (findDuplicateNetID allow vmap (NetName netns) (NetID netns))"
    by (auto simp: findDuplicateNetID_found)
  then show "handleAddOrUpdateNetNamespace allow vmap netns eventType = (vmap, [])"
    by (rule handle_duplicate)
next
  assume h: "NetName a \<noteq> NetName b \<and> NetID a = 5 \<and> NetID b = 5"
  let ?s1 = "fst (handleAddOrUpdateNetNamespace False newNodeVNIDMap a eventType_a)"
  have "\<not> snd (findDuplicateNetID False newNodeVNIDMap (NetName a) (NetID a))"
    by (simp add: findDuplicateNetID_found)
  then have s1: "?s1 = setVNID newNodeVNIDMap (NetName a) 5 (netnsIsMulticastEnabled a)"
    using h by (subst handle_apply) (simp_all add: Let_def)
  have m1: "members ?s1 5 = {|NetName a|}"
    by (simp add: s1 members_setVNID)
  with h have "snd (findDuplicateNetID False ?s1 (NetName b) (NetID b))"
    by (auto simp: findDuplicateNetID_found)
  then have s2: "handleAddOrUpdateNetNamespace False ?s1 b eventType_b = (?s1, [])"
    by (rule handle_duplicate)
  show "snd (handleAddOrUpdateNetNamespace False ?s1 b eventType_b) = []"
    by (simp add: s2)
  show "GetNamespaces (fst (handleAddOrUpdateNetNamespace False ?s1 b eventType_b)) 5 = [NetName a]"
    using m1 by (simp add: s2 GetNamespaces_single)
qed

theorem first_writer_wins_witness:
  "reachable (setVNID newNodeVNIDMap ''nsA'' 5 False) \<and>
   ids (setVNID newNodeVNIDMap ''nsA'' 5 False) ''nsA'' = Some 5 \<and>
   handleAddOrUpdateNetNamespace False (setVNID newNodeVNIDMap ''nsA'' 5 False)
      \<lparr>Name = ''nsB'', NetName = ''nsB'', NetID = 5, Annotations = Map.empty\<rparr> Modified
     = (setVNID newNodeVNIDMap ''nsA'' 5 False, []) \<and>
   snd (handleAddOrUpdateNetNamespace False
          (fst (handleAddOrUpdateNetNamespace False newNodeVNIDMap
                  \<lparr>Name = ''nsA'', NetName = ''nsA'', NetID = 5, Annotations = Map.empty\<rparr> Added))
          \<lparr>Name = ''nsB'', NetName = ''nsB'', NetID = 5, Annotations = Map.empty\<rparr> Added) = [] \<and>
   GetNamespaces
     (fst (handleAddOrUpdateNetNamespace False
            (fst (handleAddOrUpdateNetNamespace False newNodeVNIDMap
                    \<lparr>Name = ''nsA'', NetName = ''nsA'', NetID = 5, Annotations = Map.empty\<rparr> Added))
            \<lparr>Name = ''nsB'', NetName = ''nsB'', NetID = 5, Annotations = Map.empty\<rparr> Added)) 5
     = [''nsA'']"
proof -
  let ?s = "setVNID newNodeVNIDMap ''nsA'' 5 False"
  let ?a = "\<lparr>Name = ''nsA'', NetName = ''nsA'', NetID = 5, Annotations = Map.empty\<rparr>"
  let ?b = "\<lparr>Name = ''nsB'', NetName = ''nsB'', NetID = 5, Annotations = Map.empty\<rparr>"
  have r: "reachable ?s"
    by (intro reachable.intros)
  have i: "ids ?s ''nsA'' = Some 5"
    by simp
  have g: "reachable ?s \<and> \<not> False \<and> ids ?s ''nsA'' = Some (NetID ?b) \<and> ''nsA'' \<noteq> NetName ?b"
    using r by simp
  have e: "NetName ?a \<noteq> NetName ?b \<and> NetID ?a = 5 \<and> NetID ?b = 5"
    by simp
  from first_writer_wins [where vmap = ?s and allow = False and other = "''nsA''" and netns = ?b
      and eventType = Modified and a = ?a and b = ?b and eventType_a = Added and eventType_b = Added]
    g e r i
  show ?thesis
    by simp
qed

section \<open>Replaying an event\<close>

lemma lookup_bool_upd [simp]: "lookup_bool (m(k \<mapsto> b)) k = b"
  by (simp add: lookup_bool_def)

lemma setVNID_no_duplicate:
  assumes "\<not> snd (findDuplicateNetID allow vmap name v)"
  shows "\<not> snd (findDuplicateNetID allow (setVNID vmap name v mc) name v)"
  using assms
  by (auto simp: findDuplicateNetID_found members_setVNID Let_def split: option.splits if_splits)

lemma handle_then_noop:
  assumes "\<not> snd (findDuplicateNetID allow vmap (NetName netns) (NetID netns))"
  shows "\<not> snd (findDuplicateNetID allow (fst (handleAddOrUpdateNetNamespace allow vmap netns eventType))
                 (NetName netns) (NetID netns)) \<and>
         ids (fst (handleAddOrUpdateNetNamespace allow vmap netns eventType)) (NetName netns)
           = Some (NetID netns) \<and>
         lookup_bool (mcEnabled (fst (handleAddOrUpdateNetNamespace allow vmap netns eventType)))
           (NetName netns) = netnsIsMulticastEnabled netns"
proof (cases "ids vmap (NetName netns) = Some (NetID netns) \<and>
              lookup_bool (mcEnabled vmap) (NetName netns) = netnsIsMulticastEnabled netns")
  case True
  with assms have "handleAddOrUpdateNetNamespace allow vmap netns eventType = (vmap, [])"
    by (simp add: handle_noop)
  with assms True show ?thesis
    by simp
next
  case False
  with assms have "fst (handleAddOrUpdateNetNamespace allow vmap netns eventType)
      = setVNID vmap (NetName netns) (NetID netns) (netnsIsMulticastEnabled netns)"
    by (simp add: handle_apply Let_def)
  with assms show ?thesis
    by (simp add: setVNID_no_duplicate)
qed

text \<open>
  C5 (idempotence). For every state and every Add/Update event, handling the event a
  second time right after the first returns the indexes as the first application left
  them and calls nothing. When the first application was not stopped by the duplicate
  guard, the second passes the guard too and meets the no-op condition: the recorded vnid
  and multicast flag are those of the event.
\<close>

theorem handle_twice:
  "handleAddOrUpdateNetNamespace allow
      (fst (handleAddOrUpdateNetNamespace allow vmap netns eventType)) netns eventType'
     = (fst (handleAddOrUpdateNetNamespace allow vmap netns eventType), []) \<and>
   (\<not> snd (findDuplicateNetID allow vmap (NetName netns) (NetID netns)) \<longrightarrow>
      \<not> snd (findDuplicateNetID allow (fst (handleAddOrUpdateNetNamespace allow vmap netns eventType))
              (NetName netns) (NetID netns)) \<and>
      ids (fst (handleAddOrUpdateNetNamespace allow vmap netns eventType)) (NetName netns)
        = Some (NetID netns) \<and>
      lookup_bool (mcEnabled (fst (handleAddOrUpdateNetNamespace allow vmap netns eventType)))
        (NetName netns) = netnsIsMulticastEnabled netns)"
proof (cases "snd (findDuplicateNetID allow vmap (NetName netns) (NetID netns))")
  case True
  then have "handleAddOrUpdateNetNamespace allow vmap netns eventType = (vmap, [])"
    by (rule handle_duplicate)
  with True show ?thesis
    by (simp add: handle_duplicate)
next
  case False
  note n = handle_then_noop [OF False, of eventType]
  from n have "handleAddOrUpdateNetNamespace allow
      (fst (handleAddOrUpdateNetNamespace allow vmap netns eventType)) netns eventType'
     = (fst (handleAddOrUpdateNetNamespace allow vmap netns eventType), [])"
    by (intro handle_noop) simp_all
  with n show ?thesis
    by simp
qed

theorem handle_twice_witness:
  "\<not> snd (findDuplicateNetID False newNodeVNIDMap ''a'' 2) \<and>
   fst (handleAddOrUpdateNetNamespace False newNodeVNIDMap
          \<lparr>Name = ''a'', NetName = ''a'', NetID = 2, Annotations = Map.empty\<rparr> Added)
     = setVNID newNodeVNIDMap ''a'' 2 False \<and>
   handleAddOrUpdateNetNamespace False (setVNID newNodeVNIDMap ''a'' 2 False)
          \<lparr>Name = ''a'', NetName = ''a'', NetID = 2, Annotations = Map.empty\<rparr> Added
     = (setVNID newNodeVNIDMap ''a'' 2 False, []) \<and>
   \<not> snd (findDuplicateNetID False (setVNID newNodeVNIDMap ''a'' 2 False) ''a'' 2)"
proof -
  let ?o = "\<lparr>Name = ''a'', NetName = ''a'', NetID = 2, Annotations = Map.empty\<rparr>"
  have d: "\<not> snd (findDuplicateNetID False newNodeVNIDMap ''a'' 2)"
    by (simp add: findDuplicateNetID_found)
  then have f: "fst (handleAddOrUpdateNetNamespace False newNodeVNIDMap ?o Added)
      = setVNID newNodeVNIDMap ''a'' 2 False"
    by (subst handle_apply) (simp_all add: Let_def netnsIsMulticastEnabled_def)
  from handle_twice [of False newNodeVNIDMap ?o Added Added] d f show ?thesis
    by simp
qed

section \<open>The Delete handler\<close>

lemma unsetVNID_result:
  "fst (unsetVNID vmap name) =
     (case ids vmap name of
        None \<Rightarrow> Inl (''failed to find netid for namespace: '' @ name @ '' in vnid map'')
      | Some v \<Rightarrow> Inr v)"
  by (simp add: unsetVNID_def Let_def split: option.splits)

lemma unsetVNID_unbound: "ids vmap name = None \<Longrightarrow> snd (unsetVNID vmap name) = vmap"
  by (simp add: unsetVNID_def)

lemma handleDelete_eq:
  "handleDeleteNetNamespace vmap netns =
     (snd (unsetVNID vmap (NetName netns)),
      case fst (unsetVNID vmap (NetName netns)) of
        Inl err \<Rightarrow> []
      | Inr v \<Rightarrow> [(DeleteNetNamespace netns, snd (unsetVNID vmap (NetName netns)))])"
  by (cases "unsetVNID vmap (NetName netns)") (simp add: handleDeleteNetNamespace_def split: sum.splits)

lemma unsetVNID_gone:
  assumes "reachable vmap"
  shows "name |\<notin>| members (snd (unsetVNID vmap name)) v"
proof -
  have "reachable (snd (unsetVNID vmap name))"
    using assms by (rule r_unset)
  then show ?thesis
    by (simp add: reachable_members)
qed

text \<open>
  C6 (deletion ordering). In every reachable state, for every Delete event: when
  \<^verbatim>\<open>unsetVNID\<close> fails, the handler changes nothing and calls nothing; when it succeeds, the
  handler makes exactly one call, \<^verbatim>\<open>DeleteNetNamespace\<close>, and at the moment of that call the
  map is the one \<^verbatim>\<open>unsetVNID\<close> returned, in which the namespace has no entry in \<open>ids\<close>, none
  in \<open>mcEnabled\<close>, and is a member of no bucket of \<open>namespaces\<close>.
\<close>

theorem delete_after_unset:
  "reachable vmap \<Longrightarrow>
     (\<forall>err. fst (unsetVNID vmap (NetName netns)) = Inl err \<longrightarrow>
        handleDeleteNetNamespace vmap netns = (vmap, [])) \<and>
     (\<forall>v. fst (unsetVNID vmap (NetName netns)) = Inr v \<longrightarrow>
        (\<exists>vmap'. handleDeleteNetNamespace vmap netns = (vmap', [(DeleteNetNamespace netns, vmap')]) \<and>
           vmap' = snd (unsetVNID vmap (NetName netns)) \<and>
           ids vmap' (NetName netns) = None \<and>
           mcEnabled vmap' (NetName netns) = None \<and>
           (\<forall>v' st. namespaces vmap' v' = Some st \<longrightarrow> NetName netns |\<notin>| st)))"
proof (intro conjI allI impI)
  fix err
  assume "fst (unsetVNID vmap (NetName netns)) = Inl err"
  moreover from this have "ids vmap (NetName netns) = None"
    by (simp add: unsetVNID_result split: option.splits)
  ultimately show "handleDeleteNetNamespace vmap netns = (vmap, [])"
    by (simp add: handleDelete_eq unsetVNID_unbound)
next
  fix v
  assume r: "reachable vmap" and ok: "fst (unsetVNID vmap (NetName netns)) = Inr v"
  let ?s = "snd (unsetVNID vmap (NetName netns))"
  from ok have b: "ids vmap (NetName netns) = Some v"
    by (simp add: unsetVNID_result split: option.splits)
  have 1: "handleDeleteNetNamespace vmap netns = (?s, [(DeleteNetNamespace netns, ?s)])"
    by (simp add: handleDelete_eq ok)
  have 2: "ids ?s (NetName netns) = None"
    by simp
  have 3: "mcEnabled ?s (NetName netns) = None"
    by (simp add: mcEnabled_unsetVNID b)
  have 4: "\<forall>v' st. namespaces ?s v' = Some st \<longrightarrow> NetName netns |\<notin>| st"
  proof (intro allI impI)
    fix v' st
    assume "namespaces ?s v' = Some st"
    then have "members ?s v' = st"
      by (simp add: members_def)
    with unsetVNID_gone [OF r, of "NetName netns" v'] show "NetName netns |\<notin>| st"
      by simp
  qed
  from 1 2 3 4
  show "\<exists>vmap'. handleDeleteNetNamespace vmap netns = (vmap', [(DeleteNetNamespace netns, vmap')]) \<and>
           vmap' = ?s \<and> ids vmap' (NetName netns) = None \<and> mcEnabled vmap' (NetName netns) = None \<and>
           (\<forall>v' st. namespaces vmap' v' = Some st \<longrightarrow> NetName netns |\<notin>| st)"
    by blast
qed

theorem delete_after_unset_witness:
  "reachable (setVNID newNodeVNIDMap ''nsA'' 5 False) \<and>
   fst (unsetVNID (setVNID newNodeVNIDMap ''nsA'' 5 False) ''nsA'') = Inr 5 \<and>
   map fst (snd (handleDeleteNetNamespace (setVNID newNodeVNIDMap ''nsA'' 5 False)
      \<lparr>Name = ''nsA'', NetName = ''nsA'', NetID = 5, Annotations = Map.empty\<rparr>))
     = [DeleteNetNamespace \<lparr>Name = ''nsA'', NetName = ''nsA'', NetID = 5, Annotations = Map.empty\<rparr>] \<and>
   GetNamespaces (snd (hd (snd (handleDeleteNetNamespace (setVNID newNodeVNIDMap ''nsA'' 5 False)
      \<lparr>Name = ''nsA'', NetName = ''nsA'', NetID = 5, Annotations = Map.empty\<rparr>)))) 5 = [] \<and>
   fst (unsetVNID (setVNID newNodeVNIDMap ''nsA'' 5 False) ''nsB'')
     = Inl ''failed to find netid for namespace: nsB in vnid map'' \<and>
   handleDeleteNetNamespace (setVNID newNodeVNIDMap ''nsA'' 5 False)
      \<lparr>Name = ''nsB'', NetName = ''nsB'', NetID = 5, Annotations = Map.empty\<rparr>
     = (setVNID newNodeVNIDMap ''nsA'' 5 False, [])"
proof -
  let ?s = "setVNID newNodeVNIDMap ''nsA'' 5 False"
  let ?a = "\<lparr>Name = ''nsA'', NetName = ''nsA'', NetID = 5, Annotations = Map.empty\<rparr>"
  let ?b = "\<lparr>Name = ''nsB'', NetName = ''nsB'', NetID = 5, Annotations = Map.empty\<rparr>"
  have r: "reachable ?s"
    by (intro reachable.intros)
  have ua: "fst (unsetVNID ?s (NetName ?a)) = Inr 5"
    by (simp add: unsetVNID_result)
  have ub: "fst (unsetVNID ?s (NetName ?b)) = Inl ''failed to find netid for namespace: nsB in vnid map''"
    by (simp add: unsetVNID_result)
  from delete_after_unset [OF r, of ?b] ub
  have hb: "handleDeleteNetNamespace ?s ?b = (?s, [])"
    by blast
  from delete_after_unset [OF r, of ?a] ua
  obtain vmap' where ha: "handleDeleteNetNamespace ?s ?a = (vmap', [(DeleteNetNamespace ?a, vmap')])"
    and eq: "vmap' = snd (unsetVNID ?s (NetName ?a))"
    by blast
  have "namespaces (snd (unsetVNID ?s ''nsA'')) 5 = None"
    by (simp add: unsetVNID_def setVNID_def addNamespaceToSet_def removeNamespaceFromSet_def
        newNodeVNIDMap_def Let_def)
  with eq have g: "GetNamespaces vmap' 5 = []"
    by (simp add: GetNamespaces_def)
  from r ua ub hb ha g show ?thesis
    by simp
qed

section \<open>The retrying lookup\<close>

lemma run_handler_fields [simp]:
  "slept (run_handler h w) = slept w"
  "watching (run_handler h w) = watching w"
  "VnidNotFoundErrors (run_handler h w) = VnidNotFoundErrors w"
  by (simp_all add: run_handler_def split: prod.splits)

lemma deliver_fields [simp]:
  "slept (deliver allow w e) = slept w"
  "watching (deliver allow w e) = watching w"
  "VnidNotFoundErrors (deliver allow w e) = VnidNotFoundErrors w"
  by (cases e; simp)+

lemma foldl_deliver_fields [simp]:
  "slept (foldl (deliver allow) w es) = slept w"
  "watching (foldl (deliver allow) w es) = watching w"
  "VnidNotFoundErrors (foldl (deliver allow) w es) = VnidNotFoundErrors w"
  by (induction es arbitrary: w; simp)+

lemma sleep_fields [simp]:
  "slept (sleep allow env d w) = slept w @ [d]"
  "watching (sleep allow env d w) = watching w"
  "VnidNotFoundErrors (sleep allow env d w) = VnidNotFoundErrors w"
  by (simp_all add: sleep_def Let_def)

lemma attempt_world_fields [simp]:
  "slept (attempt_world allow env b w k) = slept w @ delays b k"
  "watching (attempt_world allow env b w k) = watching w"
  "VnidNotFoundErrors (attempt_world allow env b w k) = VnidNotFoundErrors w"
  by (induction k arbitrary: b w; simp)+

lemma delays_take: "k \<le> n \<Longrightarrow> delays b k = take k (delays b n)"
proof (induction k arbitrary: b n)
  case 0
  show ?case by simp
next
  case (Suc k)
  then obtain m where "n = Suc m" "k \<le> m"
    by (cases n) auto
  with Suc.IH [of m "next_backoff b"] show ?case
    by simp
qed

lemma delays_vnidBackoff:
  "delays vnidBackoff 5 = [400000000, 600000000, 900000000, 1350000000, 2025000000]"
  by (simp add: eval_nat_numeral vnidBackoff_def next_backoff_def Millisecond_def)

lemma ExponentialBackoff_found:
  assumes "int k < Steps b"
    and "\<forall>j<k. ids (vnidMap (attempt_world allow env b w j)) name = None"
    and "ids (vnidMap (attempt_world allow env b w k)) name = Some v"
  shows "ExponentialBackoff b (lookup_condition name)
           (\<lambda>d (vid, w). (vid, sleep allow env d w)) (vid0, w)
         = (None, (v, attempt_world allow env b w k))"
  using assms
proof (induction k arbitrary: b w vid0)
  case 0
  then show ?case
    by (subst ExponentialBackoff.simps) (simp add: lookup_condition_def getVNID_def)
next
  case (Suc k)
  from Suc.prems(2) have 0: "ids (vnidMap w) name = None"
    by (metis attempt_world.simps(1) zero_less_Suc)
  have 1: "int k < Steps (next_backoff b)"
    using Suc.prems(1) by (simp add: next_backoff_def)
  have 2: "\<forall>j<k. ids (vnidMap (attempt_world allow env (next_backoff b)
                   (sleep allow env (Duration b) w) j)) name = None"
    using Suc.prems(2) by (metis Suc_less_eq attempt_world.simps(2))
  have 3: "ids (vnidMap (attempt_world allow env (next_backoff b)
                   (sleep allow env (Duration b) w) k)) name = Some v"
    using Suc.prems(3) by simp
  have 4: "Steps b > 0" "Steps b \<noteq> 1"
    using Suc.prems(1) by simp_all
  show ?case
    using 0 4 Suc.IH [OF 1 2 3, of 0]
    by (subst ExponentialBackoff.simps) (simp add: lookup_condition_def getVNID_def)
qed

lemma ExponentialBackoff_timeout:
  assumes "Steps b = int (Suc n)"
    and "\<forall>j\<le>n. ids (vnidMap (attempt_world allow env b w j)) name = None"
  shows "ExponentialBackoff b (lookup_condition name)
           (\<lambda>d (vid, w). (vid, sleep allow env d w)) (vid0, w)
         = (Some ErrWaitTimeout, (0, attempt_world allow env b w n))"
  using assms
proof (induction n arbitrary: b w vid0)
  case 0
  then show ?case
    by (subst ExponentialBackoff.simps) (simp add: lookup_condition_def getVNID_def)
next
  case (Suc n)
  from Suc.prems(2) have 0: "ids (vnidMap w) name = None"
    by (metis attempt_world.simps(1) le0)
  have 1: "Steps (next_backoff b) = int (Suc n)"
    using Suc.prems(1) by (simp add: next_backoff_def)
  have 2: "\<forall>j\<le>n. ids (vnidMap (attempt_world allow env (next_backoff b)
                   (sleep allow env (Duration b) w) j)) name = None"
    using Suc.prems(2) by (metis Suc_le_mono attempt_world.simps(2))
  have 4: "Steps b > 0" "Steps b \<noteq> 1"
    using Suc.prems(1) by simp_all
  show ?case
    using 0 4 Suc.IH [OF 1 2, of 0]
    by (subst ExponentialBackoff.simps) (simp add: lookup_condition_def getVNID_def)
qed

lemma WaitAndGetVNID_found:
  assumes "k < 6"
    and "\<forall>j<k. ids (vnidMap (attempt_world allow env vnidBackoff w j)) name = None"
    and "ids (vnidMap (attempt_world allow env vnidBackoff w k)) name = Some v"
  shows "WaitAndGetVNID allow client env w name = (Inr v, attempt_world allow env vnidBackoff w k)"
proof -
  from assms(1) have "int k < Steps vnidBackoff"
    by (simp add: vnidBackoff_def)
  from ExponentialBackoff_found [OF this assms(2,3), of 0] show ?thesis
    by (simp add: WaitAndGetVNID_def vnidBackoff_def)
qed

lemma WaitAndGetVNID_fallback:
  assumes "\<forall>j<6. ids (vnidMap (attempt_world allow env vnidBackoff w j)) name = None"
  shows "WaitAndGetVNID allow client env w name =
     (case NetNamespaces_Get client name of
        Inl err \<Rightarrow>
          (Inl (''failed to find netid for namespace: '' @ name @ '', '' @ err),
           (attempt_world allow env vnidBackoff w 5)\<lparr>VnidNotFoundErrors := VnidNotFoundErrors w + 1\<rparr>)
      | Inr netns \<Rightarrow>
          (Inr (NetID netns),
           run_handler (\<lambda>vm. handleAddOrUpdateNetNamespace allow vm netns Added)
             ((attempt_world allow env vnidBackoff w 5)\<lparr>VnidNotFoundErrors := VnidNotFoundErrors w + 1\<rparr>)))"
proof -
  have s: "Steps vnidBackoff = int (Suc 5)"
    by (simp add: vnidBackoff_def)
  from assms have "\<forall>j\<le>5. ids (vnidMap (attempt_world allow env vnidBackoff w j)) name = None"
    by auto
  from ExponentialBackoff_timeout [OF s this, of 0] show ?thesis
    by (cases "NetNamespaces_Get client name")
       (simp_all add: WaitAndGetVNID_def vnidBackoff_def Let_def)
qed

lemma WaitAndGetVNID_slept:
  "\<exists>k<6. slept (snd (WaitAndGetVNID allow client env w name)) = slept w @ delays vnidBackoff k"
proof (cases "\<exists>k<6. ids (vnidMap (attempt_world allow env vnidBackoff w k)) name \<noteq> None")
  case True
  then obtain k where k: "k < 6"
      "ids (vnidMap (attempt_world allow env vnidBackoff w k)) name \<noteq> None"
      "\<forall>j<k. \<not> (j < 6 \<and> ids (vnidMap (attempt_world allow env vnidBackoff w j)) name \<noteq> None)"
    using exists_least_iff [of "\<lambda>k. k < 6 \<and> ids (vnidMap (attempt_world allow env vnidBackoff w k)) name \<noteq> None"]
    by blast
  from k(2) obtain v where v: "ids (vnidMap (attempt_world allow env vnidBackoff w k)) name = Some v"
    by blast
  from k(1,3) have "\<forall>j<k. ids (vnidMap (attempt_world allow env vnidBackoff w j)) name = None"
    by auto
  from WaitAndGetVNID_found [OF k(1) this v, of client] k(1) show ?thesis
    by auto
next
  case False
  then have "\<forall>j<6. ids (vnidMap (attempt_world allow env vnidBackoff w j)) name = None"
    by blast
  from WaitAndGetVNID_fallback [OF this, of client]
  have "slept (snd (WaitAndGetVNID allow client env w name)) = slept w @ delays vnidBackoff 5"
    by (cases "NetNamespaces_Get client name") simp_all
  then show ?thesis
    by (intro exI [of _ 5]) simp
qed

lemma quiet_attempt_world:
  "watching w \<longrightarrow> (\<forall>k. env k = []) \<Longrightarrow> vnidMap (attempt_world allow env b w j) = vnidMap w \<and>
     calls (attempt_world allow env b w j) = calls w"
proof (induction j arbitrary: b w)
  case 0
  show ?case by simp
next
  case (Suc j)
  have "vnidMap (sleep allow env (Duration b) w) = vnidMap w \<and>
        calls (sleep allow env (Duration b) w) = calls w"
    using Suc.prems by (auto simp: sleep_def Let_def)
  moreover have "watching (sleep allow env (Duration b) w) \<longrightarrow> (\<forall>k. env k = [])"
    using Suc.prems by simp
  ultimately show ?case
    using Suc.IH [of "sleep allow env (Duration b) w" "next_backoff b"] by simp
qed

text \<open>
  C7 (bounded retry, then the point read). \<^verbatim>\<open>WaitAndGetVNID(name)\<close> sleeps at most five
  times, for 400ms, 600ms, 900ms, 1350ms and 2025ms in this order (a delay of 400ms
  multiplied by 1.5 after each sleep), one lookup before each sleep and one after the
  last: at most six lookups. When the lookup number \<open>k < 6\<close> is the first to find a vnid,
  that vnid is returned without error, after \<open>k\<close> sleeps and nothing else. When all six
  lookups fail and the point read fails with some cause, the result is an error whose
  message holds the namespace name and the cause, and the counter
  \<^verbatim>\<open>VnidNotFoundErrors\<close> has been incremented by one.
\<close>

theorem WaitAndGetVNID_retry:
  "(\<exists>k<6. slept (snd (WaitAndGetVNID allow client env w name))
            = slept w @ take k [400000000, 600000000, 900000000, 1350000000, 2025000000]) \<and>
   (\<forall>k v. k < 6 \<and>
          (\<forall>j<k. ids (vnidMap (attempt_world allow env vnidBackoff w j)) name = None) \<and>
          ids (vnidMap (attempt_world allow env vnidBackoff w k)) name = Some v \<longrightarrow>
      WaitAndGetVNID allow client env w name = (Inr v, attempt_world allow env vnidBackoff w k)) \<and>
   (\<forall>cause. (\<forall>j<6. ids (vnidMap (attempt_world allow env vnidBackoff w j)) name = None) \<and>
          NetNamespaces_Get client name = Inl cause \<longrightarrow>
      WaitAndGetVNID allow client env w name =
        (Inl (''failed to find netid for namespace: '' @ name @ '', '' @ cause),
         (attempt_world allow env vnidBackoff w 5)\<lparr>VnidNotFoundErrors := VnidNotFoundErrors w + 1\<rparr>))"
proof (intro conjI allI impI)
  from WaitAndGetVNID_slept [of allow client env w name]
  obtain k where "k < 6"
    "slept (snd (WaitAndGetVNID allow client env w name)) = slept w @ delays vnidBackoff k"
    by blast
  moreover from this have "delays vnidBackoff k = take k (delays vnidBackoff 5)"
    by (intro delays_take) simp
  ultimately show "\<exists>k<6. slept (snd (WaitAndGetVNID allow client env w name))
            = slept w @ take k [400000000, 600000000, 900000000, 1350000000, 2025000000]"
    by (auto simp: delays_vnidBackoff)
next
  fix k v
  assume "k < 6 \<and>
          (\<forall>j<k. ids (vnidMap (attempt_world allow env vnidBackoff w j)) name = None) \<and>
          ids (vnidMap (attempt_world allow env vnidBackoff w k)) name = Some v"
  then show "WaitAndGetVNID allow client env w name = (Inr v, attempt_world allow env vnidBackoff w k)"
    by (intro WaitAndGetVNID_found) simp_all
next
  fix cause
  assume "(\<forall>j<6. ids (vnidMap (attempt_world allow env vnidBackoff w j)) name = None) \<and>
          NetNamespaces_Get client name = Inl cause"
  then show "WaitAndGetVNID allow client env w name =
        (Inl (''failed to find netid for namespace: '' @ name @ '', '' @ cause),
         (attempt_world allow env vnidBackoff w 5)\<lparr>VnidNotFoundErrors := VnidNotFoundErrors w + 1\<rparr>)"
    by (simp add: WaitAndGetVNID_fallback)
qed

lemma run_handler_alt:
  "run_handler h w = w\<lparr>vnidMap := fst (h (vnidMap w)), calls := calls w @ snd (h (vnidMap w))\<rparr>"
  by (simp add: run_handler_def split: prod.splits)

theorem WaitAndGetVNID_retry_witness:
  "fst (WaitAndGetVNID True
          \<lparr>NetNamespaces_Get = (\<lambda>n. Inl ''not found''), NetNamespaces_List = Inr []\<rparr>
          (\<lambda>k. if k = 1 then [OnAdd \<lparr>Name = ''ns'', NetName = ''ns'', NetID = 7, Annotations = Map.empty\<rparr>]
               else [])
          \<lparr>vnidMap = newNodeVNIDMap, calls = [], watching = True, VnidNotFoundErrors = 0, slept = []\<rparr>
          ''ns'') = Inr 7 \<and>
   slept (snd (WaitAndGetVNID True
          \<lparr>NetNamespaces_Get = (\<lambda>n. Inl ''not found''), NetNamespaces_List = Inr []\<rparr>
          (\<lambda>k. if k = 1 then [OnAdd \<lparr>Name = ''ns'', NetName = ''ns'', NetID = 7, Annotations = Map.empty\<rparr>]
               else [])
          \<lparr>vnidMap = newNodeVNIDMap, calls = [], watching = True, VnidNotFoundErrors = 0, slept = []\<rparr>
          ''ns'')) = [400000000, 600000000] \<and>
   WaitAndGetVNID True
          \<lparr>NetNamespaces_Get = (\<lambda>n. Inl ''not found''), NetNamespaces_List = Inr []\<rparr>
          (\<lambda>k. [])
          \<lparr>vnidMap = newNodeVNIDMap, calls = [], watching = True, VnidNotFoundErrors = 0, slept = []\<rparr>
          ''ns''
     = (Inl ''failed to find netid for namespace: ns, not found'',
        \<lparr>vnidMap = newNodeVNIDMap, calls = [], watching = True, VnidNotFoundErrors = 1,
         slept = [400000000, 600000000, 900000000, 1350000000, 2025000000]\<rparr>)"
proof -
  let ?c = "\<lparr>NetNamespaces_Get = (\<lambda>n. Inl ''not found''), NetNamespaces_List = Inr []\<rparr>"
  let ?o = "\<lparr>Name = ''ns'', NetName = ''ns'', NetID = 7, Annotations = Map.empty\<rparr>"
  let ?env = "\<lambda>k::nat. if k = 1 then [OnAdd ?o] else []"
  let ?quiet = "\<lambda>k::nat. [] :: informer_event list"
  let ?w = "\<lparr>vnidMap = newNodeVNIDMap, calls = [], watching = True, VnidNotFoundErrors = 0, slept = []\<rparr>"
  have a1: "attempt_world True ?env vnidBackoff ?w (Suc 0) = ?w\<lparr>slept := [400000000]\<rparr>"
    by (simp add: sleep_def vnidBackoff_def Millisecond_def)
  have a2: "ids (vnidMap (attempt_world True ?env vnidBackoff ?w 2)) ''ns'' = Some 7"
    by (simp add: eval_nat_numeral sleep_def vnidBackoff_def Millisecond_def next_backoff_def
        run_handler_alt handleAddOrUpdateNetNamespace_def findDuplicateNetID_def getVNID_def Let_def)
  have "\<forall>j<2. ids (vnidMap (attempt_world True ?env vnidBackoff ?w j)) ''ns'' = None"
    using a1 by (simp add: less_2_cases_iff)
  with a2 WaitAndGetVNID_retry [of True ?c ?env ?w "''ns''"]
  have f: "WaitAndGetVNID True ?c ?env ?w ''ns'' = (Inr 7, attempt_world True ?env vnidBackoff ?w 2)"
    by simp
  have s: "slept (attempt_world True ?env vnidBackoff ?w 2) = [400000000, 600000000]"
    by (simp add: eval_nat_numeral vnidBackoff_def Millisecond_def next_backoff_def)
  have q: "\<And>j. vnidMap (attempt_world True ?quiet vnidBackoff ?w j) = newNodeVNIDMap \<and>
               calls (attempt_world True ?quiet vnidBackoff ?w j) = []"
    using quiet_attempt_world [of ?w ?quiet True vnidBackoff] by simp
  then have "\<forall>j<6. ids (vnidMap (attempt_world True ?quiet vnidBackoff ?w j)) ''ns'' = None"
    by simp
  with WaitAndGetVNID_retry [of True ?c ?quiet ?w "''ns''"]
  have g: "WaitAndGetVNID True ?c ?quiet ?w ''ns'' =
      (Inl (''failed to find netid for namespace: '' @ ''ns'' @ '', '' @ ''not found''),
       (attempt_world True ?quiet vnidBackoff ?w 5)\<lparr>VnidNotFoundErrors := VnidNotFoundErrors ?w + 1\<rparr>)"
    by simp
  have "attempt_world True ?quiet vnidBackoff ?w 5 =
      ?w\<lparr>slept := [400000000, 600000000, 900000000, 1350000000, 2025000000]\<rparr>"
    using q [of 5] by (intro world.equality) (simp_all add: delays_vnidBackoff)
  with f s g show ?thesis
    by simp
qed

section \<open>The point read feeds the map\<close>

lemma quiet_from_attempt_world:
  "watching w \<longrightarrow> (\<forall>k\<ge>length (slept w). env k = []) \<Longrightarrow>
   vnidMap (attempt_world allow env b w j) = vnidMap w \<and>
   calls (attempt_world allow env b w j) = calls w"
proof (induction j arbitrary: b w)
  case 0
  show ?case by simp
next
  case (Suc j)
  have "vnidMap (sleep allow env (Duration b) w) = vnidMap w \<and>
        calls (sleep allow env (Duration b) w) = calls w"
    using Suc.prems by (auto simp: sleep_def Let_def)
  moreover have "watching (sleep allow env (Duration b) w) \<longrightarrow>
      (\<forall>k\<ge>length (slept (sleep allow env (Duration b) w)). env k = [])"
    using Suc.prems by simp
  ultimately show ?case
    using Suc.IH [of "sleep allow env (Duration b) w" "next_backoff b"] by simp
qed

text \<open>
  C8 (propagation-lag recovery). The claim reads: from an empty map, when the
  authoritative source holds the binding of \<open>team-a\<close> to 42, \<^verbatim>\<open>WaitAndGetVNID("team-a")\<close>
  returns 42 without error and afterwards \<^verbatim>\<open>GetNamespaces(42)\<close> contains \<open>team-a\<close>. The second
  half fails when the fed-back point read is stopped by the duplicate guard. Below, the
  map is empty when the call starts and the policy forbids duplicate vnids; during the
  first sleep the informer delivers the binding of \<open>other\<close> to 42. All six lookups of
  \<open>team-a\<close> fail, the point read answers \<open>(team-a, 42)\<close>, the handler drops it, the call
  returns 42, and \<^verbatim>\<open>GetNamespaces(42)\<close> is \<open>[other]\<close>: \<open>team-a\<close> is not in it.
\<close>

theorem point_read_dropped_counterexample:
  "vnidMap \<lparr>vnidMap = newNodeVNIDMap, calls = [], watching = True, VnidNotFoundErrors = 0, slept = []\<rparr>
     = newNodeVNIDMap \<and>
   NetNamespaces_Get
     \<lparr>NetNamespaces_Get = (\<lambda>n. Inr \<lparr>Name = n, NetName = n, NetID = 42, Annotations = Map.empty\<rparr>),
      NetNamespaces_List = Inr []\<rparr> ''team-a''
     = Inr \<lparr>Name = ''team-a'', NetName = ''team-a'', NetID = 42, Annotations = Map.empty\<rparr> \<and>
   fst (WaitAndGetVNID False
          \<lparr>NetNamespaces_Get = (\<lambda>n. Inr \<lparr>Name = n, NetName = n, NetID = 42, Annotations = Map.empty\<rparr>),
           NetNamespaces_List = Inr []\<rparr>
          (\<lambda>k. if k = 0
               then [OnAdd \<lparr>Name = ''other'', NetName = ''other'', NetID = 42, Annotations = Map.empty\<rparr>]
               else [])
          \<lparr>vnidMap = newNodeVNIDMap, calls = [], watching = True, VnidNotFoundErrors = 0, slept = []\<rparr>
          ''team-a'') = Inr 42 \<and>
   GetNamespaces (vnidMap (snd (WaitAndGetVNID False
          \<lparr>NetNamespaces_Get = (\<lambda>n. Inr \<lparr>Name = n, NetName = n, NetID = 42, Annotations = Map.empty\<rparr>),
           NetNamespaces_List = Inr []\<rparr>
          (\<lambda>k. if k = 0
               then [OnAdd \<lparr>Name = ''other'', NetName = ''other'', NetID = 42, Annotations = Map.empty\<rparr>]
               else [])
          \<lparr>vnidMap = newNodeVNIDMap, calls = [], watching = True, VnidNotFoundErrors = 0, slept = []\<rparr>
          ''team-a''))) 42 = [''other''] \<and>
   ''team-a'' \<notin> set (GetNamespaces (vnidMap (snd (WaitAndGetVNID False
          \<lparr>NetNamespaces_Get = (\<lambda>n. Inr \<lparr>Name = n, NetName = n, NetID = 42, Annotations = Map.empty\<rparr>),
           NetNamespaces_List = Inr []\<rparr>
          (\<lambda>k. if k = 0
               then [OnAdd \<lparr>Name = ''other'', NetName = ''other'', NetID = 42, Annotations = Map.empty\<rparr>]
               else [])
          \<lparr>vnidMap = newNodeVNIDMap, calls = [], watching = True, VnidNotFoundErrors = 0, slept = []\<rparr>
          ''team-a''))) 42)"
proof -
  let ?c = "\<lparr>NetNamespaces_Get = (\<lambda>n. Inr \<lparr>Name = n, NetName = n, NetID = 42, Annotations = Map.empty\<rparr>),
             NetNamespaces_List = Inr []\<rparr>"
  let ?other = "\<lparr>Name = ''other'', NetName = ''other'', NetID = 42, Annotations = Map.empty\<rparr>"
  let ?env = "\<lambda>k::nat. if k = 0 then [OnAdd ?other] else []"
  let ?w = "\<lparr>vnidMap = newNodeVNIDMap, calls = [], watching = True, VnidNotFoundErrors = 0, slept = []\<rparr>"
  let ?n = "\<lparr>Name = ''team-a'', NetName = ''team-a'', NetID = 42, Annotations = Map.empty\<rparr>"
  let ?s = "setVNID newNodeVNIDMap ''other'' 42 False"
  let ?w1 = "sleep False ?env (Duration vnidBackoff) ?w"
  have d0: "\<not> snd (findDuplicateNetID False newNodeVNIDMap (NetName ?other) (NetID ?other))"
    by (simp add: findDuplicateNetID_found)
  have h0: "handleAddOrUpdateNetNamespace False newNodeVNIDMap ?other Added
      = (?s, [(AddNetNamespace ?other, ?s)])"
    using d0 by (subst handle_apply) (simp_all add: Let_def netnsIsMulticastEnabled_def)
  have v1: "vnidMap ?w1 = ?s"
    by (simp add: sleep_def run_handler_alt h0)
  have l1: "slept ?w1 = [Duration vnidBackoff]" and t1: "watching ?w1"
    by simp_all
  have later: "vnidMap (attempt_world False ?env (next_backoff vnidBackoff) ?w1 j) = ?s" for j
    using quiet_from_attempt_world [of ?w1 ?env False "next_backoff vnidBackoff" j] v1 l1 t1
    by simp
  have at: "ids (vnidMap (attempt_world False ?env vnidBackoff ?w j)) ''team-a'' = None" for j
  proof (cases j)
    case 0
    then show ?thesis by simp
  next
    case (Suc i)
    with later [of i] show ?thesis
      by simp
  qed
  then have "\<forall>j<6. ids (vnidMap (attempt_world False ?env vnidBackoff ?w j)) ''team-a'' = None"
    by simp
  from WaitAndGetVNID_fallback [OF this, of ?c]
  have r: "WaitAndGetVNID False ?c ?env ?w ''team-a'' =
      (Inr 42, run_handler (\<lambda>vm. handleAddOrUpdateNetNamespace False vm ?n Added)
                 ((attempt_world False ?env vnidBackoff ?w 5)\<lparr>VnidNotFoundErrors := VnidNotFoundErrors ?w + 1\<rparr>))"
    by simp
  have "attempt_world False ?env vnidBackoff ?w 5
      = attempt_world False ?env (next_backoff vnidBackoff) ?w1 4"
    by (simp add: eval_nat_numeral)
  with later [of 4] have v5: "vnidMap (attempt_world False ?env vnidBackoff ?w 5) = ?s"
    by simp
  have m: "members ?s 42 = {|''other''|}"
    by (simp add: members_setVNID)
  then have "snd (findDuplicateNetID False ?s (NetName ?n) (NetID ?n))"
    by (simp add: findDuplicateNetID_found)
  then have h: "handleAddOrUpdateNetNamespace False ?s ?n Added = (?s, [])"
    by (rule handle_duplicate)
  have g: "GetNamespaces ?s 42 = [''other'']"
    using m by (rule GetNamespaces_single)
  have f: "vnidMap (snd (WaitAndGetVNID False ?c ?env ?w ''team-a'')) = ?s"
    by (simp add: r run_handler_alt v5 h)
  have a: "fst (WaitAndGetVNID False ?c ?env ?w ''team-a'') = Inr 42"
    by (simp add: r)
  show ?thesis
    by (simp only: f g a) simp
qed

text \<open>
  C8, amended. For every namespace name, every map at the start (the empty one included)
  and whatever the informer delivers during the sleeps: when all six lookups of the name
  fail, the authoritative source answers the point read with a binding of that name to a
  vnid \<open>v\<close>, and at that moment the policy allows duplicate vnids or \<^verbatim>\<open>GetNamespaces(v)\<close> lists
  no other namespace, then \<^verbatim>\<open>WaitAndGetVNID(name)\<close> returns \<open>v\<close> without error, and afterwards
  \<^verbatim>\<open>GetNamespaces(v)\<close> contains the name and \<^verbatim>\<open>getVNID(name)\<close> answers \<open>v\<close>: the point read went
  through the Add/Update handler, which called \<^verbatim>\<open>setVNID\<close> and then \<^verbatim>\<open>AddNetNamespace\<close>, after
  the counter \<^verbatim>\<open>VnidNotFoundErrors\<close> was incremented.
\<close>

theorem point_read_heals:
  assumes "\<forall>j<6. ids (vnidMap (attempt_world allow env vnidBackoff w j)) name = None"
    and "NetNamespaces_Get client name = Inr netns"
    and "NetName netns = name"
    and "allow \<or> (\<forall>other \<in> set (GetNamespaces (vnidMap (attempt_world allow env vnidBackoff w 5))
                                    (NetID netns)). other = name)"
  shows "fst (WaitAndGetVNID allow client env w name) = Inr (NetID netns) \<and>
         name \<in> set (GetNamespaces (vnidMap (snd (WaitAndGetVNID allow client env w name))) (NetID netns)) \<and>
         getVNID (vnidMap (snd (WaitAndGetVNID allow client env w name))) name = Inr (NetID netns) \<and>
         vnidMap (snd (WaitAndGetVNID allow client env w name))
           = setVNID (vnidMap (attempt_world allow env vnidBackoff w 5)) name (NetID netns)
               (netnsIsMulticastEnabled netns) \<and>
         calls (snd (WaitAndGetVNID allow client env w name))
           = calls (attempt_world allow env vnidBackoff w 5) @
             [(AddNetNamespace netns, vnidMap (snd (WaitAndGetVNID allow client env w name)))] \<and>
         VnidNotFoundErrors (snd (WaitAndGetVNID allow client env w name)) = VnidNotFoundErrors w + 1"
proof -
  let ?a5 = "attempt_world allow env vnidBackoff w 5"
  let ?w5 = "?a5\<lparr>VnidNotFoundErrors := VnidNotFoundErrors w + 1\<rparr>"
  let ?s = "setVNID (vnidMap ?a5) name (NetID netns) (netnsIsMulticastEnabled netns)"
  from WaitAndGetVNID_fallback [OF assms(1), of client] assms(2)
  have r: "WaitAndGetVNID allow client env w name =
      (Inr (NetID netns), run_handler (\<lambda>vm. handleAddOrUpdateNetNamespace allow vm netns Added) ?w5)"
    by simp
  from assms(1) have i: "ids (vnidMap ?a5) name = None"
    by simp
  from assms(4) have d: "\<not> snd (findDuplicateNetID allow (vnidMap ?a5) (NetName netns) (NetID netns))"
    by (auto simp: findDuplicateNetID_found assms(3) set_GetNamespaces [symmetric])
  have h: "handleAddOrUpdateNetNamespace allow (vnidMap ?a5) netns Added
      = (?s, [(AddNetNamespace netns, ?s)])"
    using d i assms(3) by (subst handle_apply) (simp_all add: Let_def)
  have v: "vnidMap (snd (WaitAndGetVNID allow client env w name)) = ?s"
    and c: "calls (snd (WaitAndGetVNID allow client env w name))
              = calls ?a5 @ [(AddNetNamespace netns, ?s)]"
    and n: "VnidNotFoundErrors (snd (WaitAndGetVNID allow client env w name)) = VnidNotFoundErrors w + 1"
    and a: "fst (WaitAndGetVNID allow client env w name) = Inr (NetID netns)"
    by (simp_all add: r run_handler_alt h)
  have "name |\<in>| members ?s (NetID netns)"
    by (simp add: members_setVNID Let_def)
  then have g: "name \<in> set (GetNamespaces ?s (NetID netns))"
    by (simp add: set_GetNamespaces)
  have l: "getVNID ?s name = Inr (NetID netns)"
    by (simp add: getVNID_def)
  from a g l c n show ?thesis
    by (simp add: v)
qed

theorem point_read_heals_witness:
  "ids (vnidMap (attempt_world False (\<lambda>k. []) vnidBackoff
       \<lparr>vnidMap = newNodeVNIDMap, calls = [], watching = True, VnidNotFoundErrors = 0, slept = []\<rparr> 0))
       ''team-a'' = None \<and>
   ids (vnidMap (attempt_world False (\<lambda>k. []) vnidBackoff
       \<lparr>vnidMap = newNodeVNIDMap, calls = [], watching = True, VnidNotFoundErrors = 0, slept = []\<rparr> 5))
       ''team-a'' = None \<and>
   GetNamespaces (vnidMap (attempt_world False (\<lambda>k. []) vnidBackoff
       \<lparr>vnidMap = newNodeVNIDMap, calls = [], watching = True, VnidNotFoundErrors = 0, slept = []\<rparr> 5))
       42 = [] \<and>
   fst (WaitAndGetVNID False
         \<lparr>NetNamespaces_Get = (\<lambda>n. Inr \<lparr>Name = n, NetName = n, NetID = 42, Annotations = Map.empty\<rparr>),
          NetNamespaces_List = Inr []\<rparr>
         (\<lambda>k. [])
         \<lparr>vnidMap = newNodeVNIDMap, calls = [], watching = True, VnidNotFoundErrors = 0, slept = []\<rparr>
         ''team-a'') = Inr 42 \<and>
   ''team-a'' \<in> set (GetNamespaces (vnidMap (snd (WaitAndGetVNID False
         \<lparr>NetNamespaces_Get = (\<lambda>n. Inr \<lparr>Name = n, NetName = n, NetID = 42, Annotations = Map.empty\<rparr>),
          NetNamespaces_List = Inr []\<rparr>
         (\<lambda>k. [])
         \<lparr>vnidMap = newNodeVNIDMap, calls = [], watching = True, VnidNotFoundErrors = 0, slept = []\<rparr>
         ''team-a''))) 42) \<and>
   getVNID (vnidMap (snd (WaitAndGetVNID False
         \<lparr>NetNamespaces_Get = (\<lambda>n. Inr \<lparr>Name = n, NetName = n, NetID = 42, Annotations = Map.empty\<rparr>),
          NetNamespaces_List = Inr []\<rparr>
         (\<lambda>k. [])
         \<lparr>vnidMap = newNodeVNIDMap, calls = [], watching = True, VnidNotFoundErrors = 0, slept = []\<rparr>
         ''team-a''))) ''team-a'' = Inr 42"
proof -
  let ?c = "\<lparr>NetNamespaces_Get = (\<lambda>n. Inr \<lparr>Name = n, NetName = n, NetID = 42, Annotations = Map.empty\<rparr>),
             NetNamespaces_List = Inr []\<rparr>"
  let ?env = "\<lambda>k::nat. [] :: informer_event list"
  let ?w = "\<lparr>vnidMap = newNodeVNIDMap, calls = [], watching = True, VnidNotFoundErrors = 0, slept = []\<rparr>"
  let ?n = "\<lparr>Name = ''team-a'', NetName = ''team-a'', NetID = 42, Annotations = Map.empty\<rparr>"
  have q: "vnidMap (attempt_world False ?env vnidBackoff ?w j) = newNodeVNIDMap" for j
    using quiet_attempt_world [of ?w ?env False vnidBackoff j] by simp
  have 1: "\<forall>j<6. ids (vnidMap (attempt_world False ?env vnidBackoff ?w j)) ''team-a'' = None"
    by (simp add: q)
  have 2: "NetNamespaces_Get ?c ''team-a'' = Inr ?n"
    by simp
  have 3: "NetName ?n = ''team-a''"
    by simp
  have e: "GetNamespaces (vnidMap (attempt_world False ?env vnidBackoff ?w 5)) 42 = []"
    by (simp add: q GetNamespaces_def)
  then have 4: "False \<or> (\<forall>other \<in> set (GetNamespaces (vnidMap (attempt_world False ?env vnidBackoff ?w 5))
                                    (NetID ?n)). other = ''team-a'')"
    by simp
  have x: "NetID ?n = 42"
    by simp
  from point_read_heals [OF 1 2 3 4]
  have "fst (WaitAndGetVNID False ?c ?env ?w ''team-a'') = Inr (NetID ?n) \<and>
        ''team-a'' \<in> set (GetNamespaces (vnidMap (snd (WaitAndGetVNID False ?c ?env ?w ''team-a'')))
                              (NetID ?n)) \<and>
        getVNID (vnidMap (snd (WaitAndGetVNID False ?c ?env ?w ''team-a''))) ''team-a'' = Inr (NetID ?n)"
    by blast
  then have "fst (WaitAndGetVNID False ?c ?env ?w ''team-a'') = Inr 42 \<and>
        ''team-a'' \<in> set (GetNamespaces (vnidMap (snd (WaitAndGetVNID False ?c ?env ?w ''team-a''))) 42) \<and>
        getVNID (vnidMap (snd (WaitAndGetVNID False ?c ?env ?w ''team-a''))) ''team-a'' = Inr 42"
    unfolding x .
  moreover from 1 have "ids (vnidMap (attempt_world False ?env vnidBackoff ?w 0)) ''team-a'' = None"
    and "ids (vnidMap (attempt_world False ?env vnidBackoff ?w 5)) ''team-a'' = None"
    by simp_all
  ultimately show ?thesis
    using e by blast
qed

text \<open>
  C10 (a successful answer that leaves no binding). There is a state in which
  \<^verbatim>\<open>WaitAndGetVNID\<close> returns a vnid without error and the map still has no binding for the
  namespace. Here the policy forbids duplicates, namespace \<open>other\<close> holds vnid 42, all six
  lookups of \<open>team-a\<close> fail and the point read answers 42: the handler drops the event at
  the duplicate guard and calls nothing, the call returns 42, and \<^verbatim>\<open>getVNID("team-a")\<close>
  still fails.
\<close>

theorem success_without_binding:
  "ids (setVNID newNodeVNIDMap ''other'' 42 False) ''other'' = Some 42 \<and>
   fst (WaitAndGetVNID False
           \<lparr>NetNamespaces_Get = (\<lambda>n. Inr \<lparr>Name = n, NetName = n, NetID = 42, Annotations = Map.empty\<rparr>),
            NetNamespaces_List = Inr []\<rparr>
           (\<lambda>k. [])
           \<lparr>vnidMap = setVNID newNodeVNIDMap ''other'' 42 False, calls = [], watching = True,
            VnidNotFoundErrors = 0, slept = []\<rparr>
           ''team-a'') = Inr 42 \<and>
   getVNID (vnidMap (snd (WaitAndGetVNID False
           \<lparr>NetNamespaces_Get = (\<lambda>n. Inr \<lparr>Name = n, NetName = n, NetID = 42, Annotations = Map.empty\<rparr>),
            NetNamespaces_List = Inr []\<rparr>
           (\<lambda>k. [])
           \<lparr>vnidMap = setVNID newNodeVNIDMap ''other'' 42 False, calls = [], watching = True,
            VnidNotFoundErrors = 0, slept = []\<rparr>
           ''team-a''))) ''team-a''
     = Inl ''failed to find netid for namespace: team-a in vnid map'' \<and>
   vnidMap (snd (WaitAndGetVNID False
           \<lparr>NetNamespaces_Get = (\<lambda>n. Inr \<lparr>Name = n, NetName = n, NetID = 42, Annotations = Map.empty\<rparr>),
            NetNamespaces_List = Inr []\<rparr>
           (\<lambda>k. [])
           \<lparr>vnidMap = setVNID newNodeVNIDMap ''other'' 42 False, calls = [], watching = True,
            VnidNotFoundErrors = 0, slept = []\<rparr>
           ''team-a'')) = setVNID newNodeVNIDMap ''other'' 42 False \<and>
   calls (snd (WaitAndGetVNID False
           \<lparr>NetNamespaces_Get = (\<lambda>n. Inr \<lparr>Name = n, NetName = n, NetID = 42, Annotations = Map.empty\<rparr>),
            NetNamespaces_List = Inr []\<rparr>
           (\<lambda>k. [])
           \<lparr>vnidMap = setVNID newNodeVNIDMap ''other'' 42 False, calls = [], watching = True,
            VnidNotFoundErrors = 0, slept = []\<rparr>
           ''team-a'')) = []"
proof -
  let ?c = "\<lparr>NetNamespaces_Get = (\<lambda>n. Inr \<lparr>Name = n, NetName = n, NetID = 42, Annotations = Map.empty\<rparr>),
             NetNamespaces_List = Inr []\<rparr>"
  let ?env = "\<lambda>k::nat. [] :: informer_event list"
  let ?s = "setVNID newNodeVNIDMap ''other'' 42 False"
  let ?w = "\<lparr>vnidMap = ?s, calls = [], watching = True, VnidNotFoundErrors = 0, slept = []\<rparr>"
  let ?n = "\<lparr>Name = ''team-a'', NetName = ''team-a'', NetID = 42, Annotations = Map.empty\<rparr>"
  let ?w5 = "(attempt_world False ?env vnidBackoff ?w 5)\<lparr>VnidNotFoundErrors := VnidNotFoundErrors ?w + 1\<rparr>"
  have q: "\<And>j. vnidMap (attempt_world False ?env vnidBackoff ?w j) = ?s \<and>
               calls (attempt_world False ?env vnidBackoff ?w j) = []"
    using quiet_attempt_world [of ?w ?env False vnidBackoff] by simp
  then have "\<forall>j<6. ids (vnidMap (attempt_world False ?env vnidBackoff ?w j)) ''team-a'' = None"
    by simp
  from WaitAndGetVNID_fallback [OF this, of ?c]
  have r: "WaitAndGetVNID False ?c ?env ?w ''team-a'' =
      (Inr 42, run_handler (\<lambda>vm. handleAddOrUpdateNetNamespace False vm ?n Added) ?w5)"
    by simp
  have "snd (findDuplicateNetID False ?s (NetName ?n) (NetID ?n))"
    by (simp add: findDuplicateNetID_found members_setVNID)
  then have h: "handleAddOrUpdateNetNamespace False ?s ?n Added = (?s, [])"
    by (rule handle_duplicate)
  show ?thesis
    using q [of 5] h by (simp add: r run_handler_alt getVNID_def)
qed

section \<open>Bootstrap\<close>

lemma setVNID_keeps_bound:
  assumes "ids vmap n = Some v" and "n |\<in>| members vmap v"
  shows "\<exists>v'. ids (setVNID vmap name x mc) n = Some v' \<and> n |\<in>| members (setVNID vmap name x mc) v'"
  using assms by (auto simp: members_setVNID Let_def split: option.splits)

lemma setVNID_binds:
  "ids (setVNID vmap name x mc) name = Some x \<and> name |\<in>| members (setVNID vmap name x mc) x"
  by (simp add: members_setVNID Let_def)

lemma populate_keeps_bound:
  "\<exists>v. ids vmap n = Some v \<and> n |\<in>| members vmap v \<Longrightarrow>
   \<exists>v. ids (foldl (\<lambda>vm net. setVNID vm (Name net) (NetID net) (netnsIsMulticastEnabled net)) vmap items) n
          = Some v \<and>
       n |\<in>| members (foldl (\<lambda>vm net. setVNID vm (Name net) (NetID net) (netnsIsMulticastEnabled net))
                        vmap items) v"
proof (induction items arbitrary: vmap)
  case Nil
  then show ?case by simp
next
  case (Cons x xs)
  from Cons.prems obtain v where "ids vmap n = Some v" "n |\<in>| members vmap v"
    by blast
  then have "\<exists>v'. ids (setVNID vmap (Name x) (NetID x) (netnsIsMulticastEnabled x)) n = Some v' \<and>
                  n |\<in>| members (setVNID vmap (Name x) (NetID x) (netnsIsMulticastEnabled x)) v'"
    by (rule setVNID_keeps_bound)
  from Cons.IH [OF this] show ?case
    by simp
qed

lemma populate_binds:
  "net \<in> set items \<Longrightarrow>
   \<exists>v. ids (foldl (\<lambda>vm net. setVNID vm (Name net) (NetID net) (netnsIsMulticastEnabled net)) vmap items)
          (Name net) = Some v \<and>
       Name net |\<in>| members (foldl (\<lambda>vm net. setVNID vm (Name net) (NetID net) (netnsIsMulticastEnabled net))
                               vmap items) v"
proof (induction items arbitrary: vmap)
  case Nil
  then show ?case by simp
next
  case (Cons x xs)
  show ?case
  proof (cases "net = x")
    case True
    have "\<exists>v. ids (setVNID vmap (Name x) (NetID x) (netnsIsMulticastEnabled x)) (Name x) = Some v \<and>
              Name x |\<in>| members (setVNID vmap (Name x) (NetID x) (netnsIsMulticastEnabled x)) v"
      using setVNID_binds by blast
    from populate_keeps_bound [OF this, of xs] True show ?thesis
      by simp
  next
    case False
    with Cons.prems have "net \<in> set xs"
      by simp
    from Cons.IH [OF this] show ?thesis
      by simp
  qed
qed

lemma populate_ids_distinct:
  "distinct (map Name items) \<Longrightarrow> net \<in> set items \<Longrightarrow>
   ids (foldl (\<lambda>vm net. setVNID vm (Name net) (NetID net) (netnsIsMulticastEnabled net)) vmap items)
     (Name net) = Some (NetID net)"
proof (induction items arbitrary: vmap)
  case Nil
  then show ?case by simp
next
  case (Cons x xs)
  have other: "\<And>vm n. n \<notin> Name ` set xs \<Longrightarrow>
      ids (foldl (\<lambda>vm net. setVNID vm (Name net) (NetID net) (netnsIsMulticastEnabled net)) vm xs) n
        = ids vm n"
  proof -
    fix vm n
    show "n \<notin> Name ` set xs \<Longrightarrow>
      ids (foldl (\<lambda>vm net. setVNID vm (Name net) (NetID net) (netnsIsMulticastEnabled net)) vm xs) n
        = ids vm n"
      by (induction xs arbitrary: vm) auto
  qed
  show ?case
  proof (cases "net = x")
    case True
    from Cons.prems(1) have "Name x \<notin> Name ` set xs"
      by simp
    from other [OF this] True show ?thesis
      by simp
  next
    case False
    with Cons.prems have "distinct (map Name xs)" "net \<in> set xs"
      by simp_all
    from Cons.IH [OF this] show ?thesis
      by simp
  qed
qed

text \<open>
  C9 (bootstrap). When the list succeeds, \<^verbatim>\<open>Start\<close> returns no error; the map it leaves is
  the one obtained by applying \<^verbatim>\<open>setVNID\<close> to every listed item in order, with no guard and
  no policy call; the handlers are registered on that populated map; every listed
  namespace is then found by \<^verbatim>\<open>getVNID\<close> and is a member of \<^verbatim>\<open>GetNamespaces\<close> of its vnid,
  which is the listed vnid when the listed names are distinct. When the list fails,
  \<^verbatim>\<open>Start\<close> returns that error and leaves the node as it was, handlers included.
\<close>

theorem Start_bootstrap:
  "(\<forall>items. NetNamespaces_List client = Inr items \<longrightarrow>
      (\<exists>populated.
         populated = w\<lparr>vnidMap := foldl (\<lambda>vm net. setVNID vm (Name net) (NetID net)
                                               (netnsIsMulticastEnabled net)) (vnidMap w) items\<rparr> \<and>
         populateVNIDs client w = (None, populated) \<and>
         Start client w = (None, watchNetNamespaces populated) \<and>
         watching (snd (Start client w)) \<and>
         calls (snd (Start client w)) = calls w \<and>
         (\<forall>net \<in> set items. \<exists>v.
            getVNID (vnidMap (snd (Start client w))) (Name net) = Inr v \<and>
            Name net \<in> set (GetNamespaces (vnidMap (snd (Start client w))) v)) \<and>
         (distinct (map Name items) \<longrightarrow>
            (\<forall>net \<in> set items.
               getVNID (vnidMap (snd (Start client w))) (Name net) = Inr (NetID net) \<and>
               Name net \<in> set (GetNamespaces (vnidMap (snd (Start client w))) (NetID net)))))) \<and>
   (\<forall>err. NetNamespaces_List client = Inl err \<longrightarrow> Start client w = (Some err, w))"
proof (intro conjI allI impI)
  fix err
  assume "NetNamespaces_List client = Inl err"
  then show "Start client w = (Some err, w)"
    by (simp add: Start_def populateVNIDs_def)
next
  fix items
  assume l: "NetNamespaces_List client = Inr items"
  let ?vm = "foldl (\<lambda>vm net. setVNID vm (Name net) (NetID net) (netnsIsMulticastEnabled net))
               (vnidMap w) items"
  let ?p = "w\<lparr>vnidMap := ?vm\<rparr>"
  have p: "populateVNIDs client w = (None, ?p)"
    using l by (simp add: populateVNIDs_def)
  then have s: "Start client w = (None, watchNetNamespaces ?p)"
    by (simp add: Start_def)
  have v: "vnidMap (snd (Start client w)) = ?vm"
    by (simp add: s watchNetNamespaces_def)
  have a: "\<forall>net \<in> set items. \<exists>v.
            getVNID (vnidMap (snd (Start client w))) (Name net) = Inr v \<and>
            Name net \<in> set (GetNamespaces (vnidMap (snd (Start client w))) v)"
  proof
    fix net
    assume "net \<in> set items"
    from populate_binds [OF this, of "vnidMap w"]
    show "\<exists>v. getVNID (vnidMap (snd (Start client w))) (Name net) = Inr v \<and>
            Name net \<in> set (GetNamespaces (vnidMap (snd (Start client w))) v)"
      by (auto simp: v getVNID_def set_GetNamespaces)
  qed
  have b: "distinct (map Name items) \<longrightarrow>
            (\<forall>net \<in> set items.
               getVNID (vnidMap (snd (Start client w))) (Name net) = Inr (NetID net) \<and>
               Name net \<in> set (GetNamespaces (vnidMap (snd (Start client w))) (NetID net)))"
  proof (intro impI ballI)
    fix net
    assume d: "distinct (map Name items)" and n: "net \<in> set items"
    from populate_ids_distinct [OF d n, of "vnidMap w"]
    have i: "ids ?vm (Name net) = Some (NetID net)" .
    with populate_binds [OF n, of "vnidMap w"] have "Name net |\<in>| members ?vm (NetID net)"
      by auto
    with i show "getVNID (vnidMap (snd (Start client w))) (Name net) = Inr (NetID net) \<and>
               Name net \<in> set (GetNamespaces (vnidMap (snd (Start client w))) (NetID net))"
      by (simp add: v getVNID_def set_GetNamespaces)
  qed
  have c: "watching (snd (Start client w))" "calls (snd (Start client w)) = calls w"
    by (simp_all add: s watchNetNamespaces_def)
  from p s a b c
  show "\<exists>populated.
         populated = w\<lparr>vnidMap := foldl (\<lambda>vm net. setVNID vm (Name net) (NetID net)
                                               (netnsIsMulticastEnabled net)) (vnidMap w) items\<rparr> \<and>
         populateVNIDs client w = (None, populated) \<and>
         Start client w = (None, watchNetNamespaces populated) \<and>
         watching (snd (Start client w)) \<and>
         calls (snd (Start client w)) = calls w \<and>
         (\<forall>net \<in> set items. \<exists>v.
            getVNID (vnidMap (snd (Start client w))) (Name net) = Inr v \<and>
            Name net \<in> set (GetNamespaces (vnidMap (snd (Start client w))) v)) \<and>
         (distinct (map Name items) \<longrightarrow>
            (\<forall>net \<in> set items.
               getVNID (vnidMap (snd (Start client w))) (Name net) = Inr (NetID net) \<and>
               Name net \<in> set (GetNamespaces (vnidMap (snd (Start client w))) (NetID net))))"
    by blast
qed

theorem Start_bootstrap_witness:
  "fst (Start
     \<lparr>NetNamespaces_Get = (\<lambda>n. Inl ''not found''),
      NetNamespaces_List = Inr
        [\<lparr>Name = ''a'', NetName = ''a'', NetID = 5, Annotations = [MulticastEnabledAnnotation \<mapsto> ''true'']\<rparr>,
         \<lparr>Name = ''b'', NetName = ''b'', NetID = 5, Annotations = Map.empty\<rparr>]\<rparr>
     \<lparr>vnidMap = newNodeVNIDMap, calls = [], watching = False, VnidNotFoundErrors = 0, slept = []\<rparr>)
     = None \<and>
   watching (snd (Start
     \<lparr>NetNamespaces_Get = (\<lambda>n. Inl ''not found''),
      NetNamespaces_List = Inr
        [\<lparr>Name = ''a'', NetName = ''a'', NetID = 5, Annotations = [MulticastEnabledAnnotation \<mapsto> ''true'']\<rparr>,
         \<lparr>Name = ''b'', NetName = ''b'', NetID = 5, Annotations = Map.empty\<rparr>]\<rparr>
     \<lparr>vnidMap = newNodeVNIDMap, calls = [], watching = False, VnidNotFoundErrors = 0, slept = []\<rparr>)) \<and>
   getVNID (vnidMap (snd (Start
     \<lparr>NetNamespaces_Get = (\<lambda>n. Inl ''not found''),
      NetNamespaces_List = Inr
        [\<lparr>Name = ''a'', NetName = ''a'', NetID = 5, Annotations = [MulticastEnabledAnnotation \<mapsto> ''true'']\<rparr>,
         \<lparr>Name = ''b'', NetName = ''b'', NetID = 5, Annotations = Map.empty\<rparr>]\<rparr>
     \<lparr>vnidMap = newNodeVNIDMap, calls = [], watching = False, VnidNotFoundErrors = 0, slept = []\<rparr>)))
     ''a'' = Inr 5 \<and>
   ''b'' \<in> set (GetNamespaces (vnidMap (snd (Start
     \<lparr>NetNamespaces_Get = (\<lambda>n. Inl ''not found''),
      NetNamespaces_List = Inr
        [\<lparr>Name = ''a'', NetName = ''a'', NetID = 5, Annotations = [MulticastEnabledAnnotation \<mapsto> ''true'']\<rparr>,
         \<lparr>Name = ''b'', NetName = ''b'', NetID = 5, Annotations = Map.empty\<rparr>]\<rparr>
     \<lparr>vnidMap = newNodeVNIDMap, calls = [], watching = False, VnidNotFoundErrors = 0, slept = []\<rparr>)))
     5) \<and>
   Start \<lparr>NetNamespaces_Get = (\<lambda>n. Inl ''not found''), NetNamespaces_List = Inl ''list failed''\<rparr>
     \<lparr>vnidMap = newNodeVNIDMap, calls = [], watching = False, VnidNotFoundErrors = 0, slept = []\<rparr>
     = (Some ''list failed'',
        \<lparr>vnidMap = newNodeVNIDMap, calls = [], watching = False, VnidNotFoundErrors = 0, slept = []\<rparr>)"
proof -
  let ?a = "\<lparr>Name = ''a'', NetName = ''a'', NetID = 5, Annotations = [MulticastEnabledAnnotation \<mapsto> ''true'']\<rparr>"
  let ?b = "\<lparr>Name = ''b'', NetName = ''b'', NetID = 5, Annotations = Map.empty\<rparr>"
  let ?c = "\<lparr>NetNamespaces_Get = (\<lambda>n. Inl ''not found''), NetNamespaces_List = Inr [?a, ?b]\<rparr>"
  let ?f = "\<lparr>NetNamespaces_Get = (\<lambda>n. Inl ''not found''), NetNamespaces_List = Inl ''list failed''\<rparr>"
  let ?w = "\<lparr>vnidMap = newNodeVNIDMap, calls = [], watching = False, VnidNotFoundErrors = 0, slept = []\<rparr>"
  have l: "NetNamespaces_List ?c = Inr [?a, ?b]"
    by simp
  have d: "distinct (map Name [?a, ?b])"
    by simp
  from Start_bootstrap [of ?c ?w] l obtain populated where
    s: "Start ?c ?w = (None, watchNetNamespaces populated)" and
    t: "watching (snd (Start ?c ?w))" and
    u: "distinct (map Name [?a, ?b]) \<longrightarrow>
          (\<forall>net \<in> set [?a, ?b].
             getVNID (vnidMap (snd (Start ?c ?w))) (Name net) = Inr (NetID net) \<and>
             Name net \<in> set (GetNamespaces (vnidMap (snd (Start ?c ?w))) (NetID net)))"
    by blast
  from u d have x: "getVNID (vnidMap (snd (Start ?c ?w))) ''a'' = Inr 5"
    and y: "''b'' \<in> set (GetNamespaces (vnidMap (snd (Start ?c ?w))) 5)"
    by simp_all
  have "NetNamespaces_List ?f = Inl ''list failed''"
    by simp
  with Start_bootstrap [of ?f ?w] have z: "Start ?f ?w = (Some ''list failed'', ?w)"
    by blast
  from s t x y z show ?thesis
    by simp
qed

end
